theory Spec2Isabelle
  imports Main
begin

section \<open>Annotation and label vocabulary\<close>

text \<open>
  Modelled from the spec: package \<open>constants\<close> is not among the sources. The names
  are those of the vocabulary table of the spec (section 6), which elides their common
  prefix; the literal values \<open>"true"\<close> and \<open>"false"\<close> are the ones all comparisons use.
\<close>

definition constants_True :: string where
  "constants_True = ''true''"

definition constants_False :: string where
  "constants_False = ''false''"

definition AnnotationRebootNeeded :: string where
  "AnnotationRebootNeeded = ''reboot-needed''"

definition AnnotationRebootInProgress :: string where
  "AnnotationRebootInProgress = ''reboot-in-progress''"

definition AnnotationRebootPaused :: string where
  "AnnotationRebootPaused = ''reboot-paused''"

definition AnnotationOkToReboot :: string where
  "AnnotationOkToReboot = ''ok-to-reboot''"

definition LabelBeforeReboot :: string where
  "LabelBeforeReboot = ''before-reboot''"

definition LabelAfterReboot :: string where
  "LabelAfterReboot = ''after-reboot''"

definition maxRebootingNodes :: nat where
  "maxRebootingNodes = 1"

section \<open>Nodes\<close>

text \<open>
  A Go \<open>map[string]string\<close> field is either \<open>nil\<close> (\<open>None\<close>) or a map. Reading a
  \<open>nil\<close> map finds nothing, \<open>delete\<close> on it does nothing, assigning into it panics.
\<close>

type_synonym strmap = "(string \<rightharpoonup> string) option"

record node =
  Name :: string
  ResourceVersion :: nat
  Labels :: strmap
  Annotations :: strmap
  Spec_Unschedulable :: bool

definition lookup :: "strmap \<Rightarrow> string \<Rightarrow> string option" where
  "lookup m k = (case m of None \<Rightarrow> None | Some f \<Rightarrow> f k)"

definition map_delete :: "string \<Rightarrow> strmap \<Rightarrow> strmap" where
  "map_delete k m = (case m of None \<Rightarrow> None | Some f \<Rightarrow> Some (f(k := None)))"

text \<open>\<open>None\<close> is the panic of an assignment to an entry of a \<open>nil\<close> map.\<close>

definition map_assign :: "string \<Rightarrow> string \<Rightarrow> strmap \<Rightarrow> strmap option" where
  "map_assign k v m = (case m of None \<Rightarrow> None | Some f \<Rightarrow> Some (Some (f(k \<mapsto> v))))"

section \<open>Selectors\<close>

text \<open>
  Field selectors of the Kubernetes library, as the controller builds them: a conjunction
  of terms \<open>key==value\<close> and \<open>key!=value\<close>, matched against a set of fields whose \<open>Get\<close>
  yields the empty string for a missing key.
\<close>

datatype fterm = HasTerm string string | NotHasTerm string string

definition fields_Get :: "strmap \<Rightarrow> string \<Rightarrow> string" where
  "fields_Get ls k = (case lookup ls k of None \<Rightarrow> [] | Some v \<Rightarrow> v)"

fun fterm_Matches :: "fterm \<Rightarrow> strmap \<Rightarrow> bool" where
  "fterm_Matches (HasTerm k v) ls = (fields_Get ls k = v)"
| "fterm_Matches (NotHasTerm k v) ls = (fields_Get ls k \<noteq> v)"

fun Matches :: "fterm list \<Rightarrow> strmap \<Rightarrow> bool" where
  "Matches [] ls = True"
| "Matches (t # ts) ls = (fterm_Matches t ls \<and> Matches ts ls)"

definition justRebootedSelector :: "fterm list" where
  "justRebootedSelector =
     [HasTerm AnnotationOkToReboot constants_True,
      HasTerm AnnotationRebootNeeded constants_False,
      HasTerm AnnotationRebootInProgress constants_False]"

definition rebootableSelector :: "fterm list" where
  "rebootableSelector =
     [HasTerm AnnotationRebootNeeded constants_True,
      NotHasTerm AnnotationRebootPaused constants_True,
      NotHasTerm AnnotationOkToReboot constants_True,
      NotHasTerm AnnotationRebootInProgress constants_True]"

definition stillRebootingSelector :: "fterm list" where
  "stillRebootingSelector =
     [HasTerm AnnotationOkToReboot constants_True,
      HasTerm AnnotationRebootNeeded constants_True]"

text \<open>
  Label requirements of the Kubernetes library: \<open>In\<close> needs the key to be present with
  one of the values, \<open>NotIn\<close> holds when the key is missing or has none of the values.
\<close>

datatype operator = In | NotIn

datatype requirement = Requirement string operator "string list"

fun req_Matches :: "requirement \<Rightarrow> strmap \<Rightarrow> bool" where
  "req_Matches (Requirement key In vals) ls =
     (case lookup ls key of None \<Rightarrow> False | Some v \<Rightarrow> v \<in> set vals)"
| "req_Matches (Requirement key NotIn vals) ls =
     (case lookup ls key of None \<Rightarrow> True | Some v \<Rightarrow> v \<notin> set vals)"

definition beforeRebootReq :: requirement where
  "beforeRebootReq = Requirement LabelBeforeReboot In [constants_True]"

definition afterRebootReq :: requirement where
  "afterRebootReq = Requirement LabelAfterReboot In [constants_True]"

definition notBeforeRebootReq :: requirement where
  "notBeforeRebootReq = Requirement LabelBeforeReboot NotIn [constants_True]"

definition notAfterRebootReq :: requirement where
  "notAfterRebootReq = Requirement LabelAfterReboot NotIn [constants_True]"

text \<open>
  Modelled from the spec: the two list filters of package \<open>k8sutil\<close> are not among the
  sources. The spec's selector engine is a set of pure filters over the annotations and
  the labels of the nodes, which keep the order of the list.
\<close>

definition FilterNodesByAnnotation :: "node list \<Rightarrow> fterm list \<Rightarrow> node list" where
  "FilterNodesByAnnotation list sel = filter (\<lambda>n. Matches sel (Annotations n)) list"

definition FilterNodesByRequirement :: "node list \<Rightarrow> requirement \<Rightarrow> node list" where
  "FilterNodesByRequirement list req = filter (\<lambda>n. req_Matches req (Labels n)) list"

fun hasAllAnnotations :: "node \<Rightarrow> string list \<Rightarrow> bool" where
  "hasAllAnnotations n [] = True"
| "hasAllAnnotations n (annotation # rest) =
     (case lookup (Annotations n) annotation of
        None \<Rightarrow> False
      | Some v \<Rightarrow> if v \<noteq> constants_True then False else hasAllAnnotations n rest)"

section \<open>The cluster API, as the controller sees it\<close>

text \<open>
  The API server is the environment of the controller. Its state is the list of nodes, in
  the order \<open>List\<close> returns them. Every node carries a resource version; an update is
  accepted when it is submitted with the version the server holds, and a stale one is
  refused with \<open>Conflict\<close>.

  What the environment does while the controller runs is a schedule with one event for
  each call, consumed in order (an exhausted schedule serves every call): the call is
  served, it fails, or another writer changes an annotation of a node just before the call
  is served. Every call is recorded, most recent first.
\<close>

datatype error = Conflict | NotFound | Unavailable

datatype event = Served | Unavail | Intervene string string string

datatype call = ListCall | GetCall string | UpdateCall node

record cluster =
  nodes :: "node list"
  schedule :: "event list"
  calls :: "call list"
  clock :: "int list"

definition env_write :: "string \<Rightarrow> string \<Rightarrow> string \<Rightarrow> node \<Rightarrow> node" where
  "env_write nm k v n =
     (if Name n = nm
      then n\<lparr>Annotations := Some ((case Annotations n of None \<Rightarrow> Map.empty | Some f \<Rightarrow> f)(k \<mapsto> v)),
             ResourceVersion := Suc (ResourceVersion n)\<rparr>
      else n)"

definition begin_call :: "call \<Rightarrow> cluster \<Rightarrow> bool \<times> cluster" where
  "begin_call cl c =
     (case schedule c of
        [] \<Rightarrow> (True, c\<lparr>calls := cl # calls c\<rparr>)
      | Served # es \<Rightarrow> (True, c\<lparr>schedule := es, calls := cl # calls c\<rparr>)
      | Unavail # es \<Rightarrow> (False, c\<lparr>schedule := es, calls := cl # calls c\<rparr>)
      | Intervene nm k v # es \<Rightarrow>
          (True, c\<lparr>nodes := map (env_write nm k v) (nodes c),
                   schedule := es, calls := cl # calls c\<rparr>))"

definition nc_List :: "cluster \<Rightarrow> (error + node list) \<times> cluster" where
  "nc_List c =
     (case begin_call ListCall c of
        (False, c') \<Rightarrow> (Inl Unavailable, c')
      | (True, c') \<Rightarrow> (Inr (nodes c'), c'))"

definition nc_Get :: "string \<Rightarrow> cluster \<Rightarrow> (error + node) \<times> cluster" where
  "nc_Get nm c =
     (case begin_call (GetCall nm) c of
        (False, c') \<Rightarrow> (Inl Unavailable, c')
      | (True, c') \<Rightarrow>
          (case find (\<lambda>m. Name m = nm) (nodes c') of
             None \<Rightarrow> (Inl NotFound, c')
           | Some m \<Rightarrow> (Inr m, c')))"

definition store :: "node \<Rightarrow> node list \<Rightarrow> node list" where
  "store n ns = map (\<lambda>m. if Name m = Name n then n else m) ns"

definition nc_Update :: "node \<Rightarrow> cluster \<Rightarrow> (error + node) \<times> cluster" where
  "nc_Update n c =
     (case begin_call (UpdateCall n) c of
        (False, c') \<Rightarrow> (Inl Unavailable, c')
      | (True, c') \<Rightarrow>
          (case find (\<lambda>m. Name m = Name n) (nodes c') of
             None \<Rightarrow> (Inl NotFound, c')
           | Some cur \<Rightarrow>
               if ResourceVersion n \<noteq> ResourceVersion cur then (Inl Conflict, c')
               else (let n' = n\<lparr>ResourceVersion := Suc (ResourceVersion cur)\<rparr>
                     in (Inr n', c'\<lparr>nodes := store n' (nodes c')\<rparr>))))"

text \<open>
  \<open>time.Now()\<close>: the clock is the list of the readings still to come; the last one
  stays.
\<close>

definition time_Now :: "cluster \<Rightarrow> int \<times> cluster" where
  "time_Now c =
     (case clock c of
        [] \<Rightarrow> (0, c)
      | [t] \<Rightarrow> (t, c)
      | t # ts \<Rightarrow> (t, c\<lparr>clock := ts\<rparr>))"

section \<open>Conflict retry (package k8sutil)\<close>

text \<open>
  What a Go function with result \<open>error\<close> can do: return \<open>nil\<close>, return an error, or
  panic.
\<close>

datatype status = Done | Failed error | Panicked

text \<open>
  \<open>retry.RetryOnConflict\<close> of the client library runs the function at most \<open>Steps\<close>
  times: it stops at the first result that is not a conflict, and after the last attempt
  it returns the last conflict. \<open>retry.DefaultBackoff\<close> has four steps.
\<close>

fun retry_from :: "status \<Rightarrow> nat \<Rightarrow> ('s \<Rightarrow> status \<times> 's) \<Rightarrow> 's \<Rightarrow> status \<times> 's" where
  "retry_from lastErr 0 fn s = (lastErr, s)"
| "retry_from lastErr (Suc k) fn s =
     (case fn s of
        (Failed Conflict, s') \<Rightarrow> retry_from (Failed Conflict) k fn s'
      | (r, s') \<Rightarrow> (r, s'))"

definition DefaultBackoff_Steps :: nat where
  "DefaultBackoff_Steps = 4"

definition RetryOnConflict :: "('s \<Rightarrow> status \<times> 's) \<Rightarrow> 's \<Rightarrow> status \<times> 's" where
  "RetryOnConflict fn s = retry_from Done DefaultBackoff_Steps fn s"

text \<open>One attempt of \<open>UpdateNodeRetry\<close>: get the node, apply \<open>f\<close>, submit.\<close>

definition update_attempt ::
  "string \<Rightarrow> (node \<Rightarrow> node option) \<Rightarrow> cluster \<Rightarrow> status \<times> cluster" where
  "update_attempt nm f c =
     (case nc_Get nm c of
        (Inl getErr, c') \<Rightarrow> (Failed getErr, c')
      | (Inr n, c') \<Rightarrow>
          (case f n of
             None \<Rightarrow> (Panicked, c')
           | Some n' \<Rightarrow>
               (case nc_Update n' c' of
                  (Inl err, c'') \<Rightarrow> (Failed err, c'')
                | (Inr _, c'') \<Rightarrow> (Done, c''))))"

definition UpdateNodeRetry ::
  "string \<Rightarrow> (node \<Rightarrow> node option) \<Rightarrow> cluster \<Rightarrow> status \<times> cluster" where
  "UpdateNodeRetry nm f c = RetryOnConflict (update_attempt nm f) c"

text \<open>
  With an error, the typed client hands back an empty node; \<open>Unschedulable\<close> assigns it
  to \<open>n\<close>, the variable its closure submits.
\<close>

definition zero_node :: node where
  "zero_node = \<lparr>Name = [], ResourceVersion = 0, Labels = None, Annotations = None,
                Spec_Unschedulable = False\<rparr>"

definition unschedulable_attempt :: "node \<times> cluster \<Rightarrow> status \<times> node \<times> cluster" where
  "unschedulable_attempt s =
     (case nc_Update (fst s) (snd s) of
        (Inl err, c') \<Rightarrow> (Failed err, zero_node, c')
      | (Inr n', c') \<Rightarrow> (Done, n', c'))"

definition Unschedulable :: "string \<Rightarrow> bool \<Rightarrow> cluster \<Rightarrow> status \<times> cluster" where
  "Unschedulable nm sched c =
     (case nc_Get nm c of
        (Inl err, c') \<Rightarrow> (Failed err, c')
      | (Inr n, c') \<Rightarrow>
          (case RetryOnConflict unschedulable_attempt (n\<lparr>Spec_Unschedulable := sched\<rparr>, c') of
             (r, _, c'') \<Rightarrow> (r, c'')))"

section \<open>The controller (package operator)\<close>

text \<open>
  The reboot window is a \<open>timeutil.Periodic\<close> of an external library: a window of a
  fixed length that opens at a fixed offset of every interval (a day or a week).
  \<open>Previous\<close> gives the most recent occurrence that starts at or before the reference
  time.
\<close>

record Period =
  Start :: int
  End :: int

record Periodic =
  anchor :: int
  interval :: int
  duration :: int

definition Previous :: "Periodic \<Rightarrow> int \<Rightarrow> Period" where
  "Previous w ref =
     (let s = ref - ((ref - anchor w) mod interval w)
      in \<lparr>Start = s, End = s + duration w\<rparr>)"

record Kontroller =
  beforeRebootAnnotations :: "string list"
  afterRebootAnnotations :: "string list"
  rebootWindow :: "Periodic option"

text \<open>
  The function a caller hands to \<open>UpdateNodeRetry\<close> is a sequence of statements on the
  fetched node. Each statement is one of four; the sequence stops with a panic
  (\<open>None\<close>) at an assignment into a \<open>nil\<close> map.
\<close>

datatype stmt =
    DeleteLabel string
  | DeleteAnnotation string
  | SetLabel string string
  | SetAnnotation string string

fun exec_stmt :: "stmt \<Rightarrow> node \<Rightarrow> node option" where
  "exec_stmt (DeleteLabel k) n = Some (n\<lparr>Labels := map_delete k (Labels n)\<rparr>)"
| "exec_stmt (DeleteAnnotation k) n = Some (n\<lparr>Annotations := map_delete k (Annotations n)\<rparr>)"
| "exec_stmt (SetLabel k v) n =
     (case map_assign k v (Labels n) of
        None \<Rightarrow> None
      | Some m \<Rightarrow> Some (n\<lparr>Labels := m\<rparr>))"
| "exec_stmt (SetAnnotation k v) n =
     (case map_assign k v (Annotations n) of
        None \<Rightarrow> None
      | Some m \<Rightarrow> Some (n\<lparr>Annotations := m\<rparr>))"

fun exec_stmts :: "stmt list \<Rightarrow> node \<Rightarrow> node option" where
  "exec_stmts [] n = Some n"
| "exec_stmts (st # sts) n =
     (case exec_stmt st n of None \<Rightarrow> None | Some n' \<Rightarrow> exec_stmts sts n')"

text \<open>A \<open>for ... range\<close> over nodes whose body may return from the function.\<close>

fun range_nodes ::
  "(node \<Rightarrow> cluster \<Rightarrow> status \<times> cluster) \<Rightarrow> node list \<Rightarrow> cluster \<Rightarrow> status \<times> cluster" where
  "range_nodes body [] c = (Done, c)"
| "range_nodes body (n # ns) c =
     (case body n c of
        (Done, c') \<Rightarrow> range_nodes body ns c'
      | (r, c') \<Rightarrow> (r, c'))"

definition cleanup_stmts :: "Kontroller \<Rightarrow> stmt list" where
  "cleanup_stmts k =
     DeleteLabel LabelBeforeReboot # map DeleteAnnotation (beforeRebootAnnotations k)"

definition cleanup_mutator :: "Kontroller \<Rightarrow> node \<Rightarrow> node option" where
  "cleanup_mutator k n =
     (if lookup (Labels n) LabelBeforeReboot \<noteq> None
      then (if \<not> Matches rebootableSelector (Annotations n)
            then exec_stmts (cleanup_stmts k) n
            else Some n)
      else Some n)"

definition cleanupState :: "Kontroller \<Rightarrow> cluster \<Rightarrow> status \<times> cluster" where
  "cleanupState k c =
     (case nc_List c of
        (Inl err, c') \<Rightarrow> (Failed err, c')
      | (Inr items, c') \<Rightarrow>
          range_nodes (\<lambda>n. UpdateNodeRetry (Name n) (cleanup_mutator k)) items c')"

definition checkReboot_stmts :: "string list \<Rightarrow> string \<Rightarrow> string \<Rightarrow> stmt list" where
  "checkReboot_stmts annotations label okToReboot =
     DeleteLabel label # map DeleteAnnotation annotations
       @ [SetAnnotation AnnotationOkToReboot okToReboot]"

definition checkReboot_body ::
  "string list \<Rightarrow> string \<Rightarrow> string \<Rightarrow> node \<Rightarrow> cluster \<Rightarrow> status \<times> cluster" where
  "checkReboot_body annotations label okToReboot n c =
     (if \<not> hasAllAnnotations n annotations then (Done, c)
      else UpdateNodeRetry (Name n)
             (exec_stmts (checkReboot_stmts annotations label okToReboot)) c)"

definition checkReboot ::
  "requirement \<Rightarrow> string list \<Rightarrow> string \<Rightarrow> string \<Rightarrow> cluster \<Rightarrow> status \<times> cluster" where
  "checkReboot req annotations label okToReboot c =
     (case nc_List c of
        (Inl err, c') \<Rightarrow> (Failed err, c')
      | (Inr items, c') \<Rightarrow>
          range_nodes (checkReboot_body annotations label okToReboot)
            (FilterNodesByRequirement items req) c')"

definition checkBeforeReboot :: "Kontroller \<Rightarrow> cluster \<Rightarrow> status \<times> cluster" where
  "checkBeforeReboot k c =
     checkReboot beforeRebootReq (beforeRebootAnnotations k) LabelBeforeReboot constants_True c"

definition checkAfterReboot :: "Kontroller \<Rightarrow> cluster \<Rightarrow> status \<times> cluster" where
  "checkAfterReboot k c =
     checkReboot afterRebootReq (beforeRebootAnnotations k) LabelAfterReboot constants_False c"

definition mark_stmts :: "string \<Rightarrow> string list \<Rightarrow> stmt list" where
  "mark_stmts label annotations =
     map DeleteAnnotation annotations @ [SetLabel label constants_True]"

definition mark :: "string \<Rightarrow> string \<Rightarrow> string list \<Rightarrow> cluster \<Rightarrow> status \<times> cluster" where
  "mark nodeName label annotations c =
     UpdateNodeRetry nodeName (exec_stmts (mark_stmts label annotations)) c"

text \<open>The nodes that count as rebooting, as \<open>markBeforeReboot\<close> collects them.\<close>

definition rebootingNodes :: "node list \<Rightarrow> node list" where
  "rebootingNodes items =
     FilterNodesByAnnotation items stillRebootingSelector
       @ FilterNodesByRequirement items beforeRebootReq
       @ FilterNodesByRequirement items afterRebootReq"

text \<open>
  The window check of \<open>markBeforeReboot\<close>, with its two readings of the clock: the
  function goes on when no window is configured or the previous occurrence ends after
  the second reading.
\<close>

definition insideRebootWindow :: "Kontroller \<Rightarrow> cluster \<Rightarrow> bool \<times> cluster" where
  "insideRebootWindow k c =
     (case rebootWindow k of
        None \<Rightarrow> (True, c)
      | Some w \<Rightarrow>
          (case time_Now c of
             (t1, c1) \<Rightarrow>
               (case time_Now c1 of
                  (t2, c2) \<Rightarrow> (t2 < End (Previous w t1), c2))))"

definition markBeforeReboot_admit :: "Kontroller \<Rightarrow> node list \<Rightarrow> cluster \<Rightarrow> status \<times> cluster" where
  "markBeforeReboot_admit k items c =
     (if maxRebootingNodes \<le> length (rebootingNodes items) then (Done, c)
      else
        (let rebootableNodes =
               FilterNodesByRequirement (FilterNodesByAnnotation items rebootableSelector)
                 notBeforeRebootReq
         in if length rebootableNodes = 0 then (Done, c)
            else
              (let remainingRebootableCount = maxRebootingNodes - length (rebootingNodes items);
                   chosenNodes = take remainingRebootableCount rebootableNodes
               in range_nodes
                    (\<lambda>n. mark (Name n) LabelBeforeReboot (beforeRebootAnnotations k))
                    chosenNodes c)))"

definition markBeforeReboot :: "Kontroller \<Rightarrow> cluster \<Rightarrow> status \<times> cluster" where
  "markBeforeReboot k c =
     (case nc_List c of
        (Inl err, c') \<Rightarrow> (Failed err, c')
      | (Inr items, c') \<Rightarrow>
          (case insideRebootWindow k c' of
             (False, c'') \<Rightarrow> (Done, c'')
           | (True, c'') \<Rightarrow> markBeforeReboot_admit k items c''))"

definition markAfterReboot :: "Kontroller \<Rightarrow> cluster \<Rightarrow> status \<times> cluster" where
  "markAfterReboot k c =
     (case nc_List c of
        (Inl err, c') \<Rightarrow> (Failed err, c')
      | (Inr items, c') \<Rightarrow>
          range_nodes (\<lambda>n. mark (Name n) LabelAfterReboot (afterRebootAnnotations k))
            (FilterNodesByRequirement (FilterNodesByAnnotation items justRebootedSelector)
               notAfterRebootReq) c')"

text \<open>
  One tick. \<open>process\<close> returns nothing; what it logs tells which phase stopped the tick.
  A panic is not caught.
\<close>

datatype phase = Cleanup | CheckAfter | MarkAfter | CheckBefore | MarkBefore

datatype tick = Completed | Aborted phase error | Crashed phase

fun run_phases ::
  "(phase \<times> (cluster \<Rightarrow> status \<times> cluster)) list \<Rightarrow> cluster \<Rightarrow> tick \<times> cluster" where
  "run_phases [] c = (Completed, c)"
| "run_phases ((p, f) # rest) c =
     (case f c of
        (Done, c') \<Rightarrow> run_phases rest c'
      | (Failed err, c') \<Rightarrow> (Aborted p err, c')
      | (Panicked, c') \<Rightarrow> (Crashed p, c'))"

definition phases :: "Kontroller \<Rightarrow> (phase \<times> (cluster \<Rightarrow> status \<times> cluster)) list" where
  "phases k =
     [(Cleanup, cleanupState k),
      (CheckAfter, checkAfterReboot k),
      (MarkAfter, markAfterReboot k),
      (CheckBefore, checkBeforeReboot k),
      (MarkBefore, markBeforeReboot k)]"

definition process :: "Kontroller \<Rightarrow> cluster \<Rightarrow> tick \<times> cluster" where
  "process k c = run_phases (phases k) c"

text \<open>
  The loop of \<open>Run\<close>: \<open>process\<close> is called once each period until the stop channel is
  closed, here after the given number of periods. A tick that crashed ends the loop.
\<close>

fun process_until :: "Kontroller \<Rightarrow> nat \<Rightarrow> cluster \<Rightarrow> tick list \<times> cluster" where
  "process_until k 0 c = ([], c)"
| "process_until k (Suc periods) c =
     (case process k c of
        (Crashed p, c') \<Rightarrow> ([Crashed p], c')
      | (t, c') \<Rightarrow> (case process_until k periods c' of (ts, c'') \<Rightarrow> (t # ts, c'')))"

section \<open>The invariant of bounded concurrency and the quiet environment\<close>

text \<open>
  The spec's invariant I1 counts the nodes that are in flight: still rebooting
  (authorized), or carrying one of the two phase labels with value \<open>"true"\<close>.
\<close>

definition inFlight :: "node \<Rightarrow> bool" where
  "inFlight n =
     (Matches stillRebootingSelector (Annotations n)
      \<or> req_Matches beforeRebootReq (Labels n)
      \<or> req_Matches afterRebootReq (Labels n))"

definition I1 :: "node list \<Rightarrow> bool" where
  "I1 ns = (length (filter inFlight ns) \<le> maxRebootingNodes)"

text \<open>The names of the union of the three sets the spec counts in Phase E.\<close>

definition inFlightNames :: "node list \<Rightarrow> string set" where
  "inFlightNames ns =
     Name ` (set (FilterNodesByAnnotation ns stillRebootingSelector)
             \<union> set (FilterNodesByRequirement ns beforeRebootReq)
             \<union> set (FilterNodesByRequirement ns afterRebootReq))"

text \<open>A schedule is quiet when no other writer intervenes; calls may still fail.\<close>

fun quiet :: "event list \<Rightarrow> bool" where
  "quiet [] = True"
| "quiet (Intervene nm k v # es) = False"
| "quiet (e # es) = quiet es"

text \<open>No function the controller submits changes the name or the version of a node.\<close>

definition keeps_identity :: "(node \<Rightarrow> node option) \<Rightarrow> bool" where
  "keeps_identity f =
     (\<forall>n n'. f n = Some n' \<longrightarrow> Name n' = Name n \<and> ResourceVersion n' = ResourceVersion n)"

text \<open>
  What the API server holds for a node after it has accepted the update that \<open>f\<close> made
  of it.
\<close>

definition stored :: "(node \<Rightarrow> node option) \<Rightarrow> node \<Rightarrow> node" where
  "stored f n = (the (f n))\<lparr>ResourceVersion := Suc (ResourceVersion n)\<rparr>"

section \<open>The order of the statements of an update\<close>

text \<open>
  \<open>before_stmt sts P Q\<close>: in the sequence, every statement of kind \<open>P\<close> comes before
  every statement of kind \<open>Q\<close>.
\<close>

definition before_stmt :: "stmt list \<Rightarrow> (stmt \<Rightarrow> bool) \<Rightarrow> (stmt \<Rightarrow> bool) \<Rightarrow> bool" where
  "before_stmt sts P Q =
     (\<forall>i j. i < length sts \<and> j < length sts \<and> P (sts ! i) \<and> Q (sts ! j) \<longrightarrow> i < j)"

fun is_DeleteAnnotation :: "stmt \<Rightarrow> bool" where
  "is_DeleteAnnotation (DeleteAnnotation k) = True"
| "is_DeleteAnnotation st = False"

fun is_label_stmt :: "stmt \<Rightarrow> bool" where
  "is_label_stmt (DeleteLabel k) = True"
| "is_label_stmt (SetLabel k v) = True"
| "is_label_stmt st = False"

fun is_SetAnnotation :: "stmt \<Rightarrow> bool" where
  "is_SetAnnotation (SetAnnotation k v) = True"
| "is_SetAnnotation st = False"

section \<open>Example clusters\<close>

definition example_node ::
  "string \<Rightarrow> (string \<times> string) list \<Rightarrow> (string \<times> string) list \<Rightarrow> node" where
  "example_node nm ls as =
     \<lparr>Name = nm, ResourceVersion = 1, Labels = Some (map_of ls),
      Annotations = Some (map_of as), Spec_Unschedulable = False\<rparr>"

definition example_cluster :: "node list \<Rightarrow> event list \<Rightarrow> cluster" where
  "example_cluster ns es = \<lparr>nodes = ns, schedule = es, calls = [], clock = []\<rparr>"

text \<open>Only an after-reboot hook is configured; the node waits for it after its reboot.\<close>

definition after_hook_only :: Kontroller where
  "after_hook_only =
     \<lparr>beforeRebootAnnotations = [], afterRebootAnnotations = [''example.com/healthy''],
      rebootWindow = None\<rparr>"

definition post_gating_node :: node where
  "post_gating_node =
     example_node ''n1'' [(''after-reboot'', ''true'')]
       [(''ok-to-reboot'', ''true''), (''reboot-needed'', ''false''),
        (''reboot-in-progress'', ''false'')]"

definition before_hook_only :: Kontroller where
  "before_hook_only =
     \<lparr>beforeRebootAnnotations = [''example.com/drained''], afterRebootAnnotations = [],
      rebootWindow = None\<rparr>"

definition pre_gating_node :: node where
  "pre_gating_node =
     example_node ''n1'' [(''before-reboot'', ''true'')]
       [(''reboot-needed'', ''true''), (''example.com/drained'', ''true'')]"

text \<open>A node as the API decodes it when the object has no labels and no annotations.\<close>

definition bare_node :: node where
  "bare_node =
     \<lparr>Name = ''n1'', ResourceVersion = 1, Labels = None, Annotations = None,
      Spec_Unschedulable = False\<rparr>"

definition no_hooks :: Kontroller where
  "no_hooks = \<lparr>beforeRebootAnnotations = [], afterRebootAnnotations = [], rebootWindow = None\<rparr>"

text \<open>An empty cluster whose third call fails.\<close>

definition third_list_fails :: cluster where
  "third_list_fails = example_cluster [] [Served, Served, Unavail]"

text \<open>A window of one hour that opens at 02:00 every day; times are seconds.\<close>

definition nightly :: Periodic where
  "nightly = \<lparr>anchor = 7200, interval = 86400, duration = 3600\<rparr>"

definition windowed :: Kontroller where
  "windowed = \<lparr>beforeRebootAnnotations = [], afterRebootAnnotations = [],
               rebootWindow = Some nightly\<rparr>"

definition wants_reboot_node :: node where
  "wants_reboot_node = example_node ''n1'' [] [(''reboot-needed'', ''true'')]"

definition at_time :: "int \<Rightarrow> cluster \<Rightarrow> cluster" where
  "at_time t c = c\<lparr>clock := [t]\<rparr>"

text \<open>Nodes in the pre-reboot phase: one that no longer wants to reboot, one whose label is not \<open>"true"\<close>.\<close>

definition withdrawn_node :: node where
  "withdrawn_node =
     example_node ''n1'' [(''before-reboot'', ''true''), (''zone'', ''a'')]
       [(''reboot-needed'', ''false''), (''example.com/drained'', ''true'')]"

definition stray_label_node :: node where
  "stray_label_node =
     example_node ''n3'' [(''before-reboot'', ''false'')]
       [(''example.com/drained'', ''true'')]"

definition two_pre_gating :: cluster where
  "two_pre_gating = example_cluster [withdrawn_node, pre_gating_node\<lparr>Name := ''n2''\<rparr>] []"

text \<open>
  A node in the post-reboot phase for which a new update has arrived; nodes that have
  just rebooted; two nodes that want to reboot.
\<close>

definition reupdated_node :: node where
  "reupdated_node =
     example_node ''n1'' [(''after-reboot'', ''true'')]
       [(''ok-to-reboot'', ''true''), (''reboot-needed'', ''true''),
        (''reboot-in-progress'', ''false'')]"

definition just_rebooted :: "string \<Rightarrow> node" where
  "just_rebooted nm =
     example_node nm []
       [(''ok-to-reboot'', ''true''), (''reboot-needed'', ''false''),
        (''reboot-in-progress'', ''false'')]"

definition two_wanting :: cluster where
  "two_wanting =
     example_cluster [wants_reboot_node, wants_reboot_node\<lparr>Name := ''n2''\<rparr>] []"

text \<open>Another writer touches the node between the first read and the first write.\<close>

definition touched_between :: cluster where
  "touched_between =
     example_cluster [wants_reboot_node] [Served, Intervene ''n1'' ''reboot-in-progress'' ''false'']"

fun call_name :: "call \<Rightarrow> string" where
  "call_name ListCall = ''list''"
| "call_name (GetCall nm) = ''get '' @ nm"
| "call_name (UpdateCall n) = ''update '' @ Name n"

fun is_GetCall :: "call \<Rightarrow> bool" where
  "is_GetCall (GetCall nm) = True"
| "is_GetCall cl = False"

text \<open>
  Clusters in which the list and the update of the first node are served and the next
  call fails; two nodes that want to reboot, the first call after the list failing.
\<close>

definition fourth_call_fails :: "node list \<Rightarrow> cluster" where
  "fourth_call_fails ns = example_cluster ns [Served, Served, Served, Unavail]"

definition three_post_gating :: cluster where
  "three_post_gating =
     fourth_call_fails [post_gating_node, post_gating_node\<lparr>Name := ''n2''\<rparr>,
       post_gating_node\<lparr>Name := ''n3''\<rparr>]"

definition three_pre_gating :: cluster where
  "three_pre_gating =
     fourth_call_fails [pre_gating_node, pre_gating_node\<lparr>Name := ''n2''\<rparr>,
       pre_gating_node\<lparr>Name := ''n3''\<rparr>]"

definition three_just_rebooted :: cluster where
  "three_just_rebooted =
     fourth_call_fails [just_rebooted ''n1'', just_rebooted ''n2'', just_rebooted ''n3'']"

definition two_wanting_get_fails :: cluster where
  "two_wanting_get_fails =
     example_cluster [wants_reboot_node, wants_reboot_node\<lparr>Name := ''n2''\<rparr>] [Served, Unavail]"

text \<open>
  Nodes with a \<open>nil\<close> map that the phases select: in the post-reboot phase with no
  annotations; just rebooted with no labels.
\<close>

definition unannotated_post_gating :: node where
  "unannotated_post_gating =
     \<lparr>Name = ''n2'', ResourceVersion = 1, Labels = Some (map_of [(''after-reboot'', ''true'')]),
      Annotations = None, Spec_Unschedulable = False\<rparr>"

definition unlabelled_just_rebooted :: node where
  "unlabelled_just_rebooted = (just_rebooted ''n2'')\<lparr>Labels := None\<rparr>"

definition nil_annotations_second :: cluster where
  "nil_annotations_second = example_cluster [post_gating_node, unannotated_post_gating] []"

definition nil_labels_second :: cluster where
  "nil_labels_second = example_cluster [just_rebooted ''n1'', unlabelled_just_rebooted] []"

section \<open>Vocabulary and selectors: basic facts\<close>

lemmas vocabulary_defs =
  constants_True_def constants_False_def AnnotationRebootNeeded_def
  AnnotationRebootInProgress_def AnnotationRebootPaused_def AnnotationOkToReboot_def
  LabelBeforeReboot_def LabelAfterReboot_def

lemma Get_eq_True:
  "fields_Get ls k = constants_True \<longleftrightarrow> lookup ls k = Some constants_True"
  by (simp add: fields_Get_def constants_True_def split: option.splits)

section \<open>The selector engine\<close>

text \<open>
  C8. A node is rebootable exactly when its annotation \<open>reboot-needed\<close> is \<open>"true"\<close> and
  none of \<open>ok-to-reboot\<close>, \<open>reboot-in-progress\<close> and \<open>reboot-paused\<close> is \<open>"true"\<close>; a
  missing annotation, or one with any other value, is not \<open>"true"\<close>.
\<close>

theorem rebootable_iff:
  "Matches rebootableSelector (Annotations n) \<longleftrightarrow>
     lookup (Annotations n) AnnotationRebootNeeded = Some ''true''
     \<and> lookup (Annotations n) AnnotationOkToReboot \<noteq> Some ''true''
     \<and> lookup (Annotations n) AnnotationRebootInProgress \<noteq> Some ''true''
     \<and> lookup (Annotations n) AnnotationRebootPaused \<noteq> Some ''true''"
  using Get_eq_True by (auto simp add: rebootableSelector_def constants_True_def)

theorem rebootable_iff_witness:
  "Matches rebootableSelector
     (Annotations (example_node ''n1'' [] [(''reboot-needed'', ''true''), (''reboot-paused'', ''True'')]))
   \<and> \<not> Matches rebootableSelector
     (Annotations (example_node ''n2'' [] [(''reboot-needed'', ''true''), (''ok-to-reboot'', ''true'')]))"
  using rebootable_iff [of "example_node ''n1'' [] [(''reboot-needed'', ''true''), (''reboot-paused'', ''True'')]"]
    rebootable_iff [of "example_node ''n2'' [] [(''reboot-needed'', ''true''), (''ok-to-reboot'', ''true'')]"]
  by (simp add: example_node_def lookup_def vocabulary_defs)

text \<open>
  C9. \<open>hasAllAnnotations\<close> holds exactly when every name of the list is an annotation of
  the node with the value \<open>"true"\<close>; for the empty list it holds.
\<close>

theorem hasAllAnnotations_iff:
  "(hasAllAnnotations n annotations \<longleftrightarrow>
      (\<forall>a \<in> set annotations. lookup (Annotations n) a = Some ''true''))
   \<and> hasAllAnnotations n []"
  by (induction annotations) (auto simp add: constants_True_def split: option.splits)

theorem hasAllAnnotations_iff_witness:
  "hasAllAnnotations (example_node ''n1'' [] [(''a'', ''true''), (''b'', ''true'')]) [''a'', ''b'']
   \<and> \<not> hasAllAnnotations (example_node ''n1'' [] [(''a'', ''true''), (''b'', ''True'')]) [''a'', ''b'']
   \<and> \<not> hasAllAnnotations (example_node ''n1'' [] [(''a'', ''true''), (''b'', ''false'')]) [''a'', ''b'']
   \<and> \<not> hasAllAnnotations (example_node ''n1'' [] [(''a'', ''true'')]) [''a'', ''b'']"
  using hasAllAnnotations_iff [of "example_node ''n1'' [] [(''a'', ''true''), (''b'', ''true'')]" "[''a'', ''b'']"]
    hasAllAnnotations_iff [of "example_node ''n1'' [] [(''a'', ''true''), (''b'', ''True'')]" "[''a'', ''b'']"]
    hasAllAnnotations_iff [of "example_node ''n1'' [] [(''a'', ''true''), (''b'', ''false'')]" "[''a'', ''b'']"]
    hasAllAnnotations_iff [of "example_node ''n1'' [] [(''a'', ''true'')]" "[''a'', ''b'']"]
  by (simp add: example_node_def lookup_def)

section \<open>Closing the post-reboot phase\<close>

text \<open>
  C1. \<open>checkAfterReboot\<close> is meant to wait for the after-reboot annotations. It hands
  the before-reboot annotations to \<open>checkReboot\<close> instead: with only an after-reboot
  hook configured, a node that does not carry the hook's annotation yet is released at
  once, its label deleted and \<open>ok-to-reboot\<close> set to \<open>"false"\<close>.
\<close>

theorem checkAfterReboot_uses_before_hooks:
  "\<not> hasAllAnnotations post_gating_node (afterRebootAnnotations after_hook_only)
   \<and> fst (checkAfterReboot after_hook_only (example_cluster [post_gating_node] [])) = Done
   \<and> map (\<lambda>n. (lookup (Labels n) LabelAfterReboot, lookup (Annotations n) AnnotationOkToReboot))
        (nodes (snd (checkAfterReboot after_hook_only (example_cluster [post_gating_node] []))))
      = [(None, Some ''false'')]"
  by code_simp

section \<open>What one update does to a node\<close>

lemma lookup_map_delete:
  "lookup (map_delete k m) x = (if x = k then None else lookup m x)"
  by (simp add: lookup_def map_delete_def split: option.splits)

lemma map_delete_eq_None: "map_delete k m = None \<longleftrightarrow> m = None"
  by (simp add: map_delete_def split: option.splits)

lemma exec_deletes:
  "exec_stmts (map DeleteAnnotation as @ rest) n =
     exec_stmts rest (n\<lparr>Annotations := fold map_delete as (Annotations n)\<rparr>)"
  by (induction as arbitrary: n) simp_all

lemma lookup_fold_delete:
  "lookup (fold map_delete as m) x = (if x \<in> set as then None else lookup m x)"
  by (induction as arbitrary: m) (auto simp add: lookup_map_delete)

lemma fold_delete_eq_None: "fold map_delete as m = None \<longleftrightarrow> m = None"
  by (induction as arbitrary: m) (simp_all add: map_delete_eq_None)

lemma exec_mark_stmts:
  "exec_stmts (mark_stmts label as) n =
     (case Labels n of
        None \<Rightarrow> None
      | Some f \<Rightarrow> Some (n\<lparr>Annotations := fold map_delete as (Annotations n),
                         Labels := Some (f(label \<mapsto> constants_True))\<rparr>))"
  by (simp add: mark_stmts_def exec_deletes map_assign_def split: option.splits)

lemma exec_checkReboot_stmts:
  "exec_stmts (checkReboot_stmts as label ok) n =
     (case Annotations n of
        None \<Rightarrow> None
      | Some f \<Rightarrow>
          Some (n\<lparr>Labels := map_delete label (Labels n),
                  Annotations := Some ((the (fold map_delete as (Some f)))(AnnotationOkToReboot \<mapsto> ok))\<rparr>))"
proof (cases "Annotations n")
  case None
  then show ?thesis
    by (simp add: checkReboot_stmts_def exec_deletes map_assign_def fold_delete_eq_None
        split: option.splits)
next
  case (Some f)
  then obtain g where "fold map_delete as (Some f) = Some g"
    using fold_delete_eq_None [of as "Some f"] by (cases "fold map_delete as (Some f)") auto
  with Some show ?thesis
    by (simp add: checkReboot_stmts_def exec_deletes map_assign_def)
qed

lemma exec_cleanup_stmts:
  "exec_stmts (cleanup_stmts k) n =
     Some (n\<lparr>Labels := map_delete LabelBeforeReboot (Labels n),
             Annotations := fold map_delete (beforeRebootAnnotations k) (Annotations n)\<rparr>)"
  using exec_deletes [of "beforeRebootAnnotations k" "[]"]
  by (simp add: cleanup_stmts_def)

lemma mark_result:
  assumes "exec_stmts (mark_stmts label as) n = Some x"
  shows "lookup (Labels x) label = Some constants_True
    \<and> (\<forall>a \<in> set as. lookup (Annotations x) a = None)
    \<and> (\<forall>a. a \<notin> set as \<longrightarrow> lookup (Annotations x) a = lookup (Annotations n) a)
    \<and> (\<forall>l. l \<noteq> label \<longrightarrow> lookup (Labels x) l = lookup (Labels n) l)
    \<and> Name x = Name n \<and> ResourceVersion x = ResourceVersion n
    \<and> Spec_Unschedulable x = Spec_Unschedulable n"
  using assms
  by (auto simp add: exec_mark_stmts lookup_fold_delete split: option.splits)
     (simp_all add: lookup_def)

lemma checkReboot_result:
  assumes "exec_stmts (checkReboot_stmts as label ok) n = Some x"
  shows "lookup (Labels x) label = None
    \<and> lookup (Annotations x) AnnotationOkToReboot = Some ok
    \<and> (\<forall>a \<in> set as. a \<noteq> AnnotationOkToReboot \<longrightarrow> lookup (Annotations x) a = None)
    \<and> (\<forall>a. a \<notin> set as \<longrightarrow> a \<noteq> AnnotationOkToReboot \<longrightarrow>
          lookup (Annotations x) a = lookup (Annotations n) a)
    \<and> (\<forall>l. l \<noteq> label \<longrightarrow> lookup (Labels x) l = lookup (Labels n) l)
    \<and> Name x = Name n \<and> ResourceVersion x = ResourceVersion n
    \<and> Spec_Unschedulable x = Spec_Unschedulable n"
proof -
  from assms obtain f where f: "Annotations n = Some f"
    by (auto simp add: exec_checkReboot_stmts split: option.splits)
  obtain g where g: "fold map_delete as (Some f) = Some g"
    using fold_delete_eq_None [of as "Some f"] by (cases "fold map_delete as (Some f)") auto
  have gk: "g a = (if a \<in> set as then None else f a)" for a
    using lookup_fold_delete [of as "Some f" a] g by (simp add: lookup_def)
  from assms f g have x: "x = n\<lparr>Labels := map_delete label (Labels n),
      Annotations := Some (g(AnnotationOkToReboot \<mapsto> ok))\<rparr>"
    by (simp add: exec_checkReboot_stmts)
  show ?thesis
    using f by (simp add: x lookup_map_delete gk) (simp add: lookup_def gk)
qed

section \<open>What the controller submits\<close>

lemma begin_call_calls: "begin_call cl c = (b, c') \<Longrightarrow> calls c' = cl # calls c"
  by (auto simp add: begin_call_def split: list.splits event.splits)

lemma nc_List_calls: "nc_List c = (r, c') \<Longrightarrow> calls c' = ListCall # calls c"
  by (auto simp add: nc_List_def split: prod.splits bool.splits dest: begin_call_calls)

lemma nc_Get_calls: "nc_Get nm c = (r, c') \<Longrightarrow> calls c' = GetCall nm # calls c"
  by (auto simp add: nc_Get_def split: prod.splits bool.splits option.splits dest: begin_call_calls)

lemma nc_Update_calls: "nc_Update n c = (r, c') \<Longrightarrow> calls c' = UpdateCall n # calls c"
  by (auto simp add: nc_Update_def Let_def split: prod.splits bool.splits option.splits if_splits
      dest: begin_call_calls)

lemma update_attempt_calls:
  assumes "update_attempt nm f c = (r, c')"
  shows "\<exists>new. calls c' = new @ calls c \<and> (\<forall>x. UpdateCall x \<in> set new \<longrightarrow> (\<exists>n. f n = Some x))"
proof (cases "nc_Get nm c")
  case (Pair g c1)
  note gc = nc_Get_calls [OF Pair]
  show ?thesis
  proof (cases g)
    case (Inl e)
    with Pair assms gc show ?thesis by (auto simp add: update_attempt_def)
  next
    case (Inr n)
    show ?thesis
    proof (cases "f n")
      case None
      with Pair Inr assms gc show ?thesis by (auto simp add: update_attempt_def)
    next
      case (Some x)
      obtain u c2 where upd: "nc_Update x c1 = (u, c2)"
        by (cases "nc_Update x c1")
      have "c' = c2"
        using assms Pair Inr Some upd by (auto simp add: update_attempt_def split: sum.splits)
      then have "calls c' = [UpdateCall x, GetCall nm] @ calls c"
        using nc_Update_calls [OF upd] gc by simp
      moreover have "\<forall>y. UpdateCall y \<in> set [UpdateCall x, GetCall nm] \<longrightarrow> (\<exists>n. f n = Some y)"
        using Some by auto
      ultimately show ?thesis by blast
    qed
  qed
qed

lemma retry_from_calls:
  assumes step: "\<And>c r c'. fn c = (r, c') \<Longrightarrow>
      \<exists>new. calls c' = new @ calls c \<and> (\<forall>x. UpdateCall x \<in> set new \<longrightarrow> Q x)"
    and "retry_from l k fn c = (r, c')"
  shows "\<exists>new. calls c' = new @ calls c \<and> (\<forall>x. UpdateCall x \<in> set new \<longrightarrow> Q x)"
  using assms(2)
proof (induction k arbitrary: l c)
  case 0
  then show ?case by simp
next
  case (Suc k)
  obtain r1 c1 where a: "fn c = (r1, c1)" by (cases "fn c")
  from step [OF a] obtain new1 where n1: "calls c1 = new1 @ calls c"
    "\<forall>x. UpdateCall x \<in> set new1 \<longrightarrow> Q x" by blast
  show ?case
  proof (cases "r1 = Failed Conflict")
    case True
    with Suc.prems a have "retry_from (Failed Conflict) k fn c1 = (r, c')" by simp
    from Suc.IH [OF this] obtain new2 where n2: "calls c' = new2 @ calls c1"
      "\<forall>x. UpdateCall x \<in> set new2 \<longrightarrow> Q x" by blast
    have "calls c' = (new2 @ new1) @ calls c" using n1 n2 by simp
    moreover have "\<forall>x. UpdateCall x \<in> set (new2 @ new1) \<longrightarrow> Q x" using n1 n2 by auto
    ultimately show ?thesis by blast
  next
    case False
    with Suc.prems a have "c' = c1"
      by (cases r1) (auto split: error.splits)
    with n1 show ?thesis by blast
  qed
qed

lemma UpdateNodeRetry_calls:
  assumes "UpdateNodeRetry nm f c = (r, c')"
  shows "\<exists>new. calls c' = new @ calls c \<and> (\<forall>x. UpdateCall x \<in> set new \<longrightarrow> (\<exists>n. f n = Some x))"
  using retry_from_calls [where fn = "update_attempt nm f" and Q = "\<lambda>x. \<exists>n. f n = Some x"]
    update_attempt_calls assms
  unfolding UpdateNodeRetry_def RetryOnConflict_def by blast

lemma before_stmt_append:
  "(\<forall>x \<in> set xs. \<not> Q x) \<Longrightarrow> (\<forall>y \<in> set ys. \<not> P y) \<Longrightarrow> before_stmt (xs @ ys) P Q"
  unfolding before_stmt_def
proof (intro allI impI)
  fix i j
  assume a: "\<forall>x \<in> set xs. \<not> Q x" "\<forall>y \<in> set ys. \<not> P y"
    and b: "i < length (xs @ ys) \<and> j < length (xs @ ys) \<and> P ((xs @ ys) ! i) \<and> Q ((xs @ ys) ! j)"
  have "i < length xs"
  proof (rule ccontr)
    assume ni: "\<not> i < length xs"
    then have "i - length xs < length ys" using b by auto
    then have "ys ! (i - length xs) \<in> set ys" by (rule nth_mem)
    then have "(xs @ ys) ! i \<in> set ys" using ni by (simp add: nth_append)
    with a b show False by auto
  qed
  moreover have "\<not> j < length xs"
  proof
    assume "j < length xs"
    then have "(xs @ ys) ! j \<in> set xs" by (simp add: nth_append)
    with a b show False by auto
  qed
  ultimately show "i < j" by simp
qed

text \<open>
  C4 (as amended). \<open>mark\<close> and \<open>checkReboot\<close> make their changes in the one function
  they hand to \<open>UpdateNodeRetry\<close>, so every node they submit carries all of them: for
  \<open>mark\<close> the annotations deleted and the label set; for \<open>checkReboot\<close> the label
  deleted, the annotations deleted and \<open>ok-to-reboot\<close> written. In \<open>mark\<close> every
  deletion of an annotation precedes the write of the label. In \<open>checkReboot\<close> the label
  is deleted first, then the annotations, and \<open>ok-to-reboot\<close> is written last.
\<close>

theorem updates_are_whole:
  "(\<exists>new. calls (snd (mark nm label as c)) = new @ calls c
      \<and> (\<forall>x. UpdateCall x \<in> set new \<longrightarrow>
            lookup (Labels x) label = Some ''true''
            \<and> (\<forall>a \<in> set as. lookup (Annotations x) a = None)))
   \<and> before_stmt (mark_stmts label as) is_DeleteAnnotation is_label_stmt
   \<and> (\<exists>new. calls (snd (checkReboot_body bs l ok n d)) = new @ calls d
      \<and> (\<forall>x. UpdateCall x \<in> set new \<longrightarrow>
            lookup (Labels x) l = None
            \<and> lookup (Annotations x) AnnotationOkToReboot = Some ok
            \<and> (\<forall>a \<in> set bs. a \<noteq> AnnotationOkToReboot \<longrightarrow> lookup (Annotations x) a = None)))
   \<and> before_stmt (checkReboot_stmts bs l ok) is_label_stmt is_DeleteAnnotation
   \<and> before_stmt (checkReboot_stmts bs l ok) is_DeleteAnnotation is_SetAnnotation"
proof (intro conjI)
  obtain new where new: "calls (snd (mark nm label as c)) = new @ calls c"
    "\<forall>x. UpdateCall x \<in> set new \<longrightarrow> (\<exists>n. exec_stmts (mark_stmts label as) n = Some x)"
    using UpdateNodeRetry_calls [of nm "exec_stmts (mark_stmts label as)" c
        "fst (mark nm label as c)" "snd (mark nm label as c)"]
    unfolding mark_def by auto
  have "\<forall>x. UpdateCall x \<in> set new \<longrightarrow>
      lookup (Labels x) label = Some ''true'' \<and> (\<forall>a \<in> set as. lookup (Annotations x) a = None)"
    using new(2) mark_result by (fastforce simp add: constants_True_def)
  with new(1) show "\<exists>new. calls (snd (mark nm label as c)) = new @ calls c
      \<and> (\<forall>x. UpdateCall x \<in> set new \<longrightarrow>
            lookup (Labels x) label = Some ''true''
            \<and> (\<forall>a \<in> set as. lookup (Annotations x) a = None))" by blast
next
  show "before_stmt (mark_stmts label as) is_DeleteAnnotation is_label_stmt"
    unfolding mark_stmts_def by (rule before_stmt_append) auto
next
  show "\<exists>new. calls (snd (checkReboot_body bs l ok n d)) = new @ calls d
      \<and> (\<forall>x. UpdateCall x \<in> set new \<longrightarrow>
            lookup (Labels x) l = None
            \<and> lookup (Annotations x) AnnotationOkToReboot = Some ok
            \<and> (\<forall>a \<in> set bs. a \<noteq> AnnotationOkToReboot \<longrightarrow> lookup (Annotations x) a = None))"
  proof (cases "hasAllAnnotations n bs")
    case False
    then have "calls (snd (checkReboot_body bs l ok n d)) = [] @ calls d"
      by (simp add: checkReboot_body_def)
    then show ?thesis by fastforce
  next
    case True
    obtain new where new: "calls (snd (checkReboot_body bs l ok n d)) = new @ calls d"
      "\<forall>x. UpdateCall x \<in> set new \<longrightarrow> (\<exists>m. exec_stmts (checkReboot_stmts bs l ok) m = Some x)"
      using UpdateNodeRetry_calls [of "Name n" "exec_stmts (checkReboot_stmts bs l ok)" d
          "fst (checkReboot_body bs l ok n d)" "snd (checkReboot_body bs l ok n d)"] True
      unfolding checkReboot_body_def by auto
    have "\<forall>x. UpdateCall x \<in> set new \<longrightarrow>
               lookup (Labels x) l = None
               \<and> lookup (Annotations x) AnnotationOkToReboot = Some ok
               \<and> (\<forall>a \<in> set bs. a \<noteq> AnnotationOkToReboot \<longrightarrow> lookup (Annotations x) a = None)"
      using new(2) checkReboot_result by blast
    with new(1) show ?thesis by blast
  qed
next
  have "before_stmt ([DeleteLabel l] @ (map DeleteAnnotation bs @ [SetAnnotation AnnotationOkToReboot ok]))
      is_label_stmt is_DeleteAnnotation"
    by (rule before_stmt_append) auto
  then show "before_stmt (checkReboot_stmts bs l ok) is_label_stmt is_DeleteAnnotation"
    by (simp add: checkReboot_stmts_def)
next
  have "before_stmt ((DeleteLabel l # map DeleteAnnotation bs) @ [SetAnnotation AnnotationOkToReboot ok])
      is_DeleteAnnotation is_SetAnnotation"
    by (rule before_stmt_append) auto
  then show "before_stmt (checkReboot_stmts bs l ok) is_DeleteAnnotation is_SetAnnotation"
    by (simp add: checkReboot_stmts_def)
qed

theorem updates_are_whole_witness:
  "(case calls (snd (mark ''n1'' LabelAfterReboot [''example.com/healthy'']
            (example_cluster [post_gating_node] [Served, Intervene ''n1'' ''example.com/healthy'' ''true'']))) of
      UpdateCall x # rest \<Rightarrow>
        lookup (Labels x) LabelAfterReboot = Some ''true''
        \<and> lookup (Annotations x) ''example.com/healthy'' = None \<and> length rest = 3
    | _ \<Rightarrow> False)
   \<and> (case calls (snd (checkReboot_body [''example.com/drained''] LabelBeforeReboot ''true''
            pre_gating_node (example_cluster [pre_gating_node] []))) of
      UpdateCall x # rest \<Rightarrow>
        lookup (Labels x) LabelBeforeReboot = None
        \<and> lookup (Annotations x) AnnotationOkToReboot = Some ''true''
        \<and> lookup (Annotations x) ''example.com/drained'' = None \<and> length rest = 1
    | _ \<Rightarrow> False)"
proof -
  let ?m = "calls (snd (mark ''n1'' LabelAfterReboot [''example.com/healthy'']
            (example_cluster [post_gating_node] [Served, Intervene ''n1'' ''example.com/healthy'' ''true''])))"
  let ?r = "calls (snd (checkReboot_body [''example.com/drained''] LabelBeforeReboot ''true''
            pre_gating_node (example_cluster [pre_gating_node] [])))"
  have a: "(case ?m of UpdateCall x # rest \<Rightarrow> length rest = 3 | _ \<Rightarrow> False)"
    by code_simp
  have b: "(case ?r of UpdateCall x # rest \<Rightarrow> length rest = 1 | _ \<Rightarrow> False)"
    by code_simp
  have c: "calls (example_cluster ns es) = []" for ns es
    by (simp add: example_cluster_def)
  note t = updates_are_whole [of "''n1''" LabelAfterReboot "[''example.com/healthy'']"
        "example_cluster [post_gating_node] [Served, Intervene ''n1'' ''example.com/healthy'' ''true'']"
        "[''example.com/drained'']" LabelBeforeReboot "''true''" pre_gating_node
        "example_cluster [pre_gating_node] []"]
  have tm: "\<forall>x. UpdateCall x \<in> set ?m \<longrightarrow>
      lookup (Labels x) LabelAfterReboot = Some ''true''
      \<and> lookup (Annotations x) ''example.com/healthy'' = None"
    using t by (simp add: c)
  have tr: "\<forall>x. UpdateCall x \<in> set ?r \<longrightarrow>
      lookup (Labels x) LabelBeforeReboot = None
      \<and> lookup (Annotations x) AnnotationOkToReboot = Some ''true''
      \<and> lookup (Annotations x) ''example.com/drained'' = None"
    using t by (simp add: c AnnotationOkToReboot_def)
  have m: "(case ?m of UpdateCall x # rest \<Rightarrow>
        lookup (Labels x) LabelAfterReboot = Some ''true''
        \<and> lookup (Annotations x) ''example.com/healthy'' = None \<and> length rest = 3
    | _ \<Rightarrow> False)"
    using a tm by (cases ?m) (auto split: call.splits)
  have r: "(case ?r of UpdateCall x # rest \<Rightarrow>
        lookup (Labels x) LabelBeforeReboot = None
        \<and> lookup (Annotations x) AnnotationOkToReboot = Some ''true''
        \<and> lookup (Annotations x) ''example.com/drained'' = None \<and> length rest = 1
    | _ \<Rightarrow> False)"
    using b tr by (cases ?r) (auto split: call.splits)
  from m r show ?thesis by (rule conjI)
qed

text \<open>
  C4 as stated fails for \<open>checkReboot\<close>: the deletion of the phase label is its first
  statement, ahead of the deletion of the hook annotation.
\<close>

theorem checkReboot_order_counterexample:
  "checkReboot_stmts [''example.com/drained''] LabelBeforeReboot constants_True =
     [DeleteLabel LabelBeforeReboot, DeleteAnnotation ''example.com/drained'',
      SetAnnotation AnnotationOkToReboot constants_True]
   \<and> \<not> before_stmt (checkReboot_stmts [''example.com/drained''] LabelBeforeReboot constants_True)
         is_DeleteAnnotation is_label_stmt"
proof
  show eq: "checkReboot_stmts [''example.com/drained''] LabelBeforeReboot constants_True =
     [DeleteLabel LabelBeforeReboot, DeleteAnnotation ''example.com/drained'',
      SetAnnotation AnnotationOkToReboot constants_True]"
    by (simp add: checkReboot_stmts_def)
  show "\<not> before_stmt (checkReboot_stmts [''example.com/drained''] LabelBeforeReboot constants_True)
         is_DeleteAnnotation is_label_stmt"
  proof
    assume "before_stmt (checkReboot_stmts [''example.com/drained''] LabelBeforeReboot constants_True)
         is_DeleteAnnotation is_label_stmt"
    then have "(1::nat) < 0"
      unfolding before_stmt_def eq by (elim allE [of _ 1] allE [of _ 0]) simp
    then show False by simp
  qed
qed

section \<open>Loops that return early\<close>

lemma run_phases_append:
  "run_phases pre c = (Completed, c1) \<Longrightarrow> run_phases (pre @ rest) c = run_phases rest c1"
  by (induction pre c rule: run_phases.induct) (auto split: prod.splits status.splits)

lemma range_nodes_append:
  "range_nodes body pre c = (Done, c1) \<Longrightarrow> range_nodes body (pre @ rest) c = range_nodes body rest c1"
  by (induction pre arbitrary: c) (auto split: prod.splits status.splits)

lemma range_nodes_stops:
  assumes "range_nodes body pre c = (Done, c1)" and "body n c1 = (Failed e, c')"
  shows "range_nodes body (pre @ n # others) c = (Failed e, c')"
  using range_nodes_append [OF assms(1)] assms(2) by simp

lemma range_nodes_panics:
  assumes "range_nodes body pre c = (Done, c1)" and "fst (body n c1) = Panicked"
  shows "fst (range_nodes body (pre @ n # others) c) = Panicked"
proof -
  obtain c' where "body n c1 = (Panicked, c')"
    using assms(2) by (cases "body n c1") auto
  then show ?thesis
    using range_nodes_append [OF assms(1), of "n # others"] by simp
qed

section \<open>Nil maps\<close>

lemma cleanup_mutator_total: "cleanup_mutator k n \<noteq> None"
  by (simp add: cleanup_mutator_def exec_cleanup_stmts)

lemma begin_call_served: "schedule c = [] \<Longrightarrow> begin_call cl c = (True, c\<lparr>calls := cl # calls c\<rparr>)"
  by (simp add: begin_call_def)

lemma update_attempt_panics:
  assumes "schedule c = []" and "find (\<lambda>m. Name m = nm) (nodes c) = Some n" and "f n = None"
  shows "fst (update_attempt nm f c) = Panicked"
  using assms by (simp add: update_attempt_def nc_Get_def begin_call_served)

lemma UpdateNodeRetry_panics:
  assumes "schedule c = []" and "find (\<lambda>m. Name m = nm) (nodes c) = Some n" and "f n = None"
  shows "fst (UpdateNodeRetry nm f c) = Panicked"
proof -
  have "fst (update_attempt nm f c) = Panicked"
    using assms by (rule update_attempt_panics)
  then obtain c1 where "update_attempt nm f c = (Panicked, c1)"
    by (cases "update_attempt nm f c") auto
  then show ?thesis
    by (simp add: UpdateNodeRetry_def RetryOnConflict_def DefaultBackoff_Steps_def numeral_eq_Suc)
qed

lemma update_attempt_Panicked:
  "fst (update_attempt nm f c) = Panicked \<Longrightarrow> \<exists>n. f n = None"
  by (auto simp add: update_attempt_def split: prod.splits sum.splits option.splits)

lemma retry_from_Panicked:
  assumes "\<And>s. fst (fn s) \<noteq> Panicked" and "l \<noteq> Panicked"
  shows "fst (retry_from l k fn s) \<noteq> Panicked"
  using assms(2)
proof (induction k arbitrary: l s)
  case 0
  then show ?case by simp
next
  case (Suc k)
  obtain r s1 where a: "fn s = (r, s1)" by (cases "fn s")
  have r: "r \<noteq> Panicked" using assms(1) [of s] a by simp
  show ?case
  proof (cases "r = Failed Conflict")
    case True
    with a Suc.IH [of "Failed Conflict" s1] show ?thesis by simp
  next
    case False
    with a r show ?thesis by (cases r) (auto split: error.splits)
  qed
qed

lemma UpdateNodeRetry_total:
  assumes "\<And>n. f n \<noteq> None"
  shows "fst (UpdateNodeRetry nm f c) \<noteq> Panicked"
  unfolding UpdateNodeRetry_def RetryOnConflict_def
proof (rule retry_from_Panicked)
  show "fst (update_attempt nm f s) \<noteq> Panicked" for s
    using update_attempt_Panicked [of nm f s] assms by auto
qed simp

lemma range_nodes_total:
  assumes "\<And>n c. fst (body n c) \<noteq> Panicked"
  shows "fst (range_nodes body ns c) \<noteq> Panicked"
proof (induction ns arbitrary: c)
  case Nil
  then show ?case by simp
next
  case (Cons n ns)
  obtain r c1 where a: "body n c = (r, c1)" by (cases "body n c")
  have "r \<noteq> Panicked" using assms [of n c] a by simp
  with a Cons.IH [of c1] show ?case by (cases r) simp_all
qed

lemma cleanupState_total: "fst (cleanupState k c) \<noteq> Panicked"
proof (cases "nc_List c")
  case (Pair r c0)
  show ?thesis
  proof (cases r)
    case (Inl e)
    with Pair show ?thesis by (simp add: cleanupState_def)
  next
    case (Inr items)
    have "fst (range_nodes (\<lambda>n. UpdateNodeRetry (Name n) (cleanup_mutator k)) items c0) \<noteq> Panicked"
      by (rule range_nodes_total) (rule UpdateNodeRetry_total, rule cleanup_mutator_total)
    with Pair Inr show ?thesis by (simp add: cleanupState_def)
  qed
qed

text \<open>
  C10 (as amended). The function of \<open>mark\<close> assigns into \<open>Labels\<close> and the function of
  \<open>checkReboot\<close> assigns into \<open>Annotations\<close>, with no check for \<open>nil\<close>: each panics
  exactly on a node whose map is \<open>nil\<close>. The panic comes out of \<open>mark\<close>, and out of
  \<open>checkReboot\<close> and \<open>markAfterReboot\<close> when the loop reaches such a node, as a panic and
  not as an error. The function of \<open>cleanupState\<close> only reads and deletes, so it never
  panics, and neither does \<open>cleanupState\<close>.
\<close>

theorem mutators_on_nil_maps:
  "(exec_stmts (mark_stmts label as) n = None \<longleftrightarrow> Labels n = None)
   \<and> (exec_stmts (checkReboot_stmts as label ok) n = None \<longleftrightarrow> Annotations n = None)
   \<and> cleanup_mutator k n \<noteq> None
   \<and> (schedule c = [] \<and> find (\<lambda>m. Name m = nm) (nodes c) = Some n \<and> Labels n = None
        \<longrightarrow> fst (mark nm label as c) = Panicked)
   \<and> (schedule c = [] \<and> find (\<lambda>m. Name m = Name s) (nodes c) = Some n \<and> Annotations n = None
        \<and> hasAllAnnotations s as
        \<longrightarrow> fst (checkReboot_body as label ok s c) = Panicked)
   \<and> (nc_List d = (Inr items, d0)
        \<and> FilterNodesByRequirement items req = pre @ s # others
        \<and> range_nodes (checkReboot_body as label ok) pre d0 = (Done, d1)
        \<and> schedule d1 = [] \<and> find (\<lambda>m. Name m = Name s) (nodes d1) = Some n
        \<and> Annotations n = None \<and> hasAllAnnotations s as
        \<longrightarrow> fst (checkReboot req as label ok d) = Panicked)
   \<and> (nc_List d = (Inr items, d0)
        \<and> FilterNodesByRequirement (FilterNodesByAnnotation items justRebootedSelector)
             notAfterRebootReq = pre @ s # others
        \<and> range_nodes (\<lambda>n. mark (Name n) LabelAfterReboot (afterRebootAnnotations k)) pre d0
             = (Done, d1)
        \<and> schedule d1 = [] \<and> find (\<lambda>m. Name m = Name s) (nodes d1) = Some n
        \<and> Labels n = None
        \<longrightarrow> fst (markAfterReboot k d) = Panicked)
   \<and> fst (cleanupState k d) \<noteq> Panicked"
proof -
  have m1: "exec_stmts (mark_stmts label as) n = None \<longleftrightarrow> Labels n = None" for label as n
    by (simp add: exec_mark_stmts split: option.splits)
  have m2: "exec_stmts (checkReboot_stmts as label ok) n = None \<longleftrightarrow> Annotations n = None"
    for as label ok n
    by (simp add: exec_checkReboot_stmts split: option.splits)
  have m4: "fst (mark nm label as c) = Panicked"
    if "schedule c = [] \<and> find (\<lambda>m. Name m = nm) (nodes c) = Some n \<and> Labels n = None"
    for nm label as c n
    unfolding mark_def using that m1 UpdateNodeRetry_panics by blast
  have m5: "fst (checkReboot_body as label ok s c) = Panicked"
    if "schedule c = [] \<and> find (\<lambda>m. Name m = Name s) (nodes c) = Some n \<and> Annotations n = None
        \<and> hasAllAnnotations s as"
    for as label ok s c n
  proof -
    have "exec_stmts (checkReboot_stmts as label ok) n = None"
      using that m2 by simp
    with that show ?thesis
      unfolding checkReboot_body_def using UpdateNodeRetry_panics by auto
  qed
  have m6: "fst (checkReboot req as label ok d) = Panicked"
    if a: "nc_List d = (Inr items, d0)
        \<and> FilterNodesByRequirement items req = pre @ s # others
        \<and> range_nodes (checkReboot_body as label ok) pre d0 = (Done, d1)
        \<and> schedule d1 = [] \<and> find (\<lambda>m. Name m = Name s) (nodes d1) = Some n
        \<and> Annotations n = None \<and> hasAllAnnotations s as"
  proof -
    have "fst (checkReboot_body as label ok s d1) = Panicked"
      using a m5 by blast
    then have "fst (range_nodes (checkReboot_body as label ok) (pre @ s # others) d0) = Panicked"
      using a range_nodes_panics by blast
    with a show ?thesis by (simp add: checkReboot_def)
  qed
  have m7: "fst (markAfterReboot k d) = Panicked"
    if a: "nc_List d = (Inr items, d0)
        \<and> FilterNodesByRequirement (FilterNodesByAnnotation items justRebootedSelector)
             notAfterRebootReq = pre @ s # others
        \<and> range_nodes (\<lambda>n. mark (Name n) LabelAfterReboot (afterRebootAnnotations k)) pre d0
             = (Done, d1)
        \<and> schedule d1 = [] \<and> find (\<lambda>m. Name m = Name s) (nodes d1) = Some n
        \<and> Labels n = None"
  proof -
    have "fst (mark (Name s) LabelAfterReboot (afterRebootAnnotations k) d1) = Panicked"
      using a m4 by blast
    then have "fst (range_nodes (\<lambda>n. mark (Name n) LabelAfterReboot (afterRebootAnnotations k))
        (pre @ s # others) d0) = Panicked"
      using a range_nodes_panics [of "\<lambda>n. mark (Name n) LabelAfterReboot (afterRebootAnnotations k)"
          pre d0 d1 s others] by blast
    with a show ?thesis by (simp add: markAfterReboot_def)
  qed
  show ?thesis
    by (intro conjI impI)
      (rule m1 m2 cleanup_mutator_total cleanupState_total | erule m4 m5 m6 m7)+
qed

theorem mutators_on_nil_maps_witness:
  "fst (mark ''n1'' LabelBeforeReboot [] (example_cluster [bare_node] [])) = Panicked
   \<and> fst (checkReboot_body [] LabelAfterReboot ''false'' bare_node (example_cluster [bare_node] [])) = Panicked
   \<and> cleanup_mutator before_hook_only bare_node \<noteq> None
   \<and> fst (checkAfterReboot no_hooks nil_annotations_second) = Panicked
   \<and> fst (process no_hooks nil_annotations_second) = Crashed CheckAfter
   \<and> fst (markAfterReboot no_hooks nil_labels_second) = Panicked
   \<and> fst (process no_hooks nil_labels_second) = Crashed MarkAfter
   \<and> fst (cleanupState before_hook_only (example_cluster [bare_node] [])) \<noteq> Panicked"
proof -
  have old: "fst (mark ''n1'' LabelBeforeReboot [] (example_cluster [bare_node] [])) = Panicked
   \<and> fst (checkReboot_body [] LabelAfterReboot ''false'' bare_node (example_cluster [bare_node] [])) = Panicked
   \<and> cleanup_mutator before_hook_only bare_node \<noteq> None"
    using mutators_on_nil_maps [of LabelBeforeReboot "[]" bare_node "''false''" before_hook_only
        "example_cluster [bare_node] []" "''n1''" bare_node]
      mutators_on_nil_maps [of LabelAfterReboot "[]" bare_node "''false''" before_hook_only
        "example_cluster [bare_node] []" "''n1''" bare_node]
    by (simp add: example_cluster_def bare_node_def)
  note t6 = mutators_on_nil_maps [THEN conjunct2, THEN conjunct2, THEN conjunct2, THEN conjunct2,
      THEN conjunct2, THEN conjunct1, rule_format]
  note t7 = mutators_on_nil_maps [THEN conjunct2, THEN conjunct2, THEN conjunct2, THEN conjunct2,
      THEN conjunct2, THEN conjunct2, THEN conjunct1, rule_format]
  note t8 = mutators_on_nil_maps [THEN conjunct2, THEN conjunct2, THEN conjunct2, THEN conjunct2,
      THEN conjunct2, THEN conjunct2, THEN conjunct2]

  let ?A0 = "snd (nc_List nil_annotations_second)"
  let ?as = "beforeRebootAnnotations no_hooks"
  let ?bodyA = "checkReboot_body ?as LabelAfterReboot constants_False"
  let ?A1 = "snd (range_nodes ?bodyA [post_gating_node] ?A0)"
  let ?nA = "the (find (\<lambda>m. Name m = Name unannotated_post_gating) (nodes ?A1))"
  have A_list: "nc_List nil_annotations_second
      = (Inr [post_gating_node, unannotated_post_gating], ?A0)"
    by (simp add: nc_List_def begin_call_def nil_annotations_second_def example_cluster_def)
  have A_filter: "FilterNodesByRequirement [post_gating_node, unannotated_post_gating] afterRebootReq
      = [post_gating_node] @ unannotated_post_gating # []"
    by (simp add: FilterNodesByRequirement_def afterRebootReq_def post_gating_node_def
        unannotated_post_gating_def example_node_def lookup_def vocabulary_defs)
  have A_f: "fst (range_nodes ?bodyA [post_gating_node] ?A0) = Done"
    by code_simp
  have A_range: "range_nodes ?bodyA [post_gating_node] ?A0 = (Done, ?A1)"
    by (simp only: prod_eq_iff fst_conv snd_conv A_f)
  have A_sched: "schedule ?A1 = []"
    by code_simp
  have A_some: "find (\<lambda>m. Name m = Name unannotated_post_gating) (nodes ?A1) \<noteq> None"
    by code_simp
  have A_find: "find (\<lambda>m. Name m = Name unannotated_post_gating) (nodes ?A1) = Some ?nA"
    using A_some by simp
  have A_nil: "Annotations ?nA = None"
    by code_simp
  have A_has: "hasAllAnnotations unannotated_post_gating ?as"
    by code_simp
  have A: "fst (checkAfterReboot no_hooks nil_annotations_second) = Panicked"
    unfolding checkAfterReboot_def
    by (rule t6, intro conjI, rule A_list, rule A_filter, rule A_range, rule A_sched,
        rule A_find, rule A_nil, rule A_has)
  have Ap: "fst (process no_hooks nil_annotations_second) = Crashed CheckAfter"
    by code_simp

  let ?L0 = "snd (nc_List nil_labels_second)"
  let ?bodyL = "\<lambda>n. mark (Name n) LabelAfterReboot (afterRebootAnnotations no_hooks)"
  let ?L1 = "snd (range_nodes ?bodyL [just_rebooted ''n1''] ?L0)"
  let ?nL = "the (find (\<lambda>m. Name m = Name unlabelled_just_rebooted) (nodes ?L1))"
  have L_list: "nc_List nil_labels_second
      = (Inr [just_rebooted ''n1'', unlabelled_just_rebooted], ?L0)"
    by (simp add: nc_List_def begin_call_def nil_labels_second_def example_cluster_def)
  have L_filter: "FilterNodesByRequirement
      (FilterNodesByAnnotation [just_rebooted ''n1'', unlabelled_just_rebooted] justRebootedSelector)
      notAfterRebootReq = [just_rebooted ''n1''] @ unlabelled_just_rebooted # []"
    by (simp add: FilterNodesByRequirement_def FilterNodesByAnnotation_def notAfterRebootReq_def
        justRebootedSelector_def just_rebooted_def unlabelled_just_rebooted_def example_node_def
        lookup_def fields_Get_def vocabulary_defs)
  have L_f: "fst (range_nodes ?bodyL [just_rebooted ''n1''] ?L0) = Done"
    by code_simp
  have L_range: "range_nodes ?bodyL [just_rebooted ''n1''] ?L0 = (Done, ?L1)"
    by (simp only: prod_eq_iff fst_conv snd_conv L_f)
  have L_sched: "schedule ?L1 = []"
    by code_simp
  have L_some: "find (\<lambda>m. Name m = Name unlabelled_just_rebooted) (nodes ?L1) \<noteq> None"
    by code_simp
  have L_find: "find (\<lambda>m. Name m = Name unlabelled_just_rebooted) (nodes ?L1) = Some ?nL"
    using L_some by simp
  have L_nil: "Labels ?nL = None"
    by code_simp
  have L: "fst (markAfterReboot no_hooks nil_labels_second) = Panicked"
    by (rule t7, intro conjI, rule L_list, rule L_filter, rule L_range, rule L_sched,
        rule L_find, rule L_nil)
  have Lp: "fst (process no_hooks nil_labels_second) = Crashed MarkAfter"
    by code_simp
  have Cl: "fst (cleanupState before_hook_only (example_cluster [bare_node] [])) \<noteq> Panicked"
    by (rule t8)
  from old A Ap L Lp Cl show ?thesis by (intro conjI) simp_all
qed

text \<open>
  C10 as stated fails for \<open>cleanupState\<close>: on a node with \<open>nil\<close> maps its function
  returns the node, and on a labelled node with \<open>nil\<close> annotations it deletes the label.
\<close>

theorem cleanup_mutator_survives_nil_maps:
  "cleanup_mutator before_hook_only bare_node = Some bare_node
   \<and> map_option (\<lambda>n. (lookup (Labels n) LabelBeforeReboot, lookup (Annotations n) ''example.com/drained''))
       (cleanup_mutator before_hook_only
          (bare_node\<lparr>Labels := Some [LabelBeforeReboot \<mapsto> ''true'']\<rparr>))
     = Some (None, None)"
  by (simp add: cleanup_mutator_def bare_node_def lookup_def exec_cleanup_stmts before_hook_only_def
      rebootableSelector_def fields_Get_def vocabulary_defs map_delete_def)

section \<open>Errors in a tick\<close>

lemma checkReboot_stops:
  assumes "nc_List c = (Inr items, c0)"
    and "FilterNodesByRequirement items req = pre @ n # others"
    and "range_nodes (checkReboot_body as label ok) pre c0 = (Done, c1)"
    and "hasAllAnnotations n as"
    and "UpdateNodeRetry (Name n) (exec_stmts (checkReboot_stmts as label ok)) c1 = (Failed e, c')"
  shows "checkReboot req as label ok c = (Failed e, c')"
proof -
  have "checkReboot_body as label ok n c1 = (Failed e, c')"
    using assms(4,5) by (simp add: checkReboot_body_def)
  then have "range_nodes (checkReboot_body as label ok) (pre @ n # others) c0 = (Failed e, c')"
    using assms(3) by (rule range_nodes_stops [rotated])
  then show ?thesis
    using assms(1,2) by (simp add: checkReboot_def)
qed

lemma markAfterReboot_stops:
  assumes "nc_List c = (Inr items, c0)"
    and "FilterNodesByRequirement (FilterNodesByAnnotation items justRebootedSelector)
           notAfterRebootReq = pre @ n # others"
    and "range_nodes (\<lambda>n. mark (Name n) LabelAfterReboot (afterRebootAnnotations k)) pre c0
           = (Done, c1)"
    and "mark (Name n) LabelAfterReboot (afterRebootAnnotations k) c1 = (Failed e, c')"
  shows "markAfterReboot k c = (Failed e, c')"
proof -
  have "range_nodes (\<lambda>n. mark (Name n) LabelAfterReboot (afterRebootAnnotations k))
      (pre @ n # others) c0 = (Failed e, c')"
    using range_nodes_stops [of "\<lambda>n. mark (Name n) LabelAfterReboot (afterRebootAnnotations k)"
        pre c0 c1 n e c' others] assms(3,4) by simp
  then show ?thesis
    using assms(1,2) by (simp add: markAfterReboot_def)
qed

lemma markBeforeReboot_stops:
  assumes "nc_List c = (Inr items, c0)"
    and "insideRebootWindow k c0 = (True, c1)"
    and "\<not> maxRebootingNodes \<le> length (rebootingNodes items)"
    and "FilterNodesByRequirement (FilterNodesByAnnotation items rebootableSelector)
           notBeforeRebootReq = n # others"
    and "mark (Name n) LabelBeforeReboot (beforeRebootAnnotations k) c1 = (Failed e, c')"
  shows "markBeforeReboot k c = (Failed e, c')"
proof -
  have "rebootingNodes items = []"
    using assms(3) by (cases "rebootingNodes items") (simp_all add: maxRebootingNodes_def)
  then have "markBeforeReboot_admit k items c1 = (Failed e, c')"
    using assms(3,4,5)
    by (simp add: markBeforeReboot_admit_def Let_def maxRebootingNodes_def)
  then show ?thesis
    using assms(1,2) by (simp add: markBeforeReboot_def)
qed

text \<open>
  C7. When the phases before phase \<open>i\<close> have completed and phase \<open>i\<close> returns an error,
  \<open>process\<close> stops there: its result is the abort at that phase and the cluster is the
  one that phase left, so no later phase has run. The loop then goes on with the next
  tick from that cluster. In each of the phases B to E, when the nodes before a node have
  been handled and the update of that node fails, the phase returns that error with the
  cluster as the failed update left it, whatever nodes follow.
\<close>

theorem errors_abort_the_tick:
  "(i < length (phases k) \<and> run_phases (take i (phases k)) c = (Completed, c1)
      \<and> snd (phases k ! i) c1 = (Failed e, c')
      \<longrightarrow> process k c = (Aborted (fst (phases k ! i)) e, c'))
   \<and> (process k c = (Aborted p e, c')
      \<longrightarrow> process_until k (Suc periods) c =
            (Aborted p e # fst (process_until k periods c'), snd (process_until k periods c')))
   \<and> (nc_List d = (Inr items, d0)
      \<and> FilterNodesByRequirement items afterRebootReq = pre @ n # others
      \<and> range_nodes (checkReboot_body (beforeRebootAnnotations k) LabelAfterReboot constants_False)
           pre d0 = (Done, d1)
      \<and> hasAllAnnotations n (beforeRebootAnnotations k)
      \<and> UpdateNodeRetry (Name n)
           (exec_stmts (checkReboot_stmts (beforeRebootAnnotations k) LabelAfterReboot constants_False))
           d1 = (Failed e, d')
      \<longrightarrow> checkAfterReboot k d = (Failed e, d'))
   \<and> (nc_List d = (Inr items, d0)
      \<and> FilterNodesByRequirement (FilterNodesByAnnotation items justRebootedSelector)
           notAfterRebootReq = pre @ n # others
      \<and> range_nodes (\<lambda>n. mark (Name n) LabelAfterReboot (afterRebootAnnotations k)) pre d0
           = (Done, d1)
      \<and> mark (Name n) LabelAfterReboot (afterRebootAnnotations k) d1 = (Failed e, d')
      \<longrightarrow> markAfterReboot k d = (Failed e, d'))
   \<and> (nc_List d = (Inr items, d0)
      \<and> FilterNodesByRequirement items beforeRebootReq = pre @ n # others
      \<and> range_nodes (checkReboot_body (beforeRebootAnnotations k) LabelBeforeReboot constants_True)
           pre d0 = (Done, d1)
      \<and> hasAllAnnotations n (beforeRebootAnnotations k)
      \<and> UpdateNodeRetry (Name n)
           (exec_stmts (checkReboot_stmts (beforeRebootAnnotations k) LabelBeforeReboot constants_True))
           d1 = (Failed e, d')
      \<longrightarrow> checkBeforeReboot k d = (Failed e, d'))
   \<and> (nc_List d = (Inr items, d0)
      \<and> insideRebootWindow k d0 = (True, d1)
      \<and> \<not> maxRebootingNodes \<le> length (rebootingNodes items)
      \<and> FilterNodesByRequirement (FilterNodesByAnnotation items rebootableSelector)
           notBeforeRebootReq = n # others
      \<and> mark (Name n) LabelBeforeReboot (beforeRebootAnnotations k) d1 = (Failed e, d')
      \<longrightarrow> markBeforeReboot k d = (Failed e, d'))"
proof -
  have tick: "process k c = (Aborted (fst (phases k ! i)) e, c')"
    if a: "i < length (phases k) \<and> run_phases (take i (phases k)) c = (Completed, c1)
      \<and> snd (phases k ! i) c1 = (Failed e, c')"
  proof -
    obtain p f where pf: "phases k ! i = (p, f)"
      by (cases "phases k ! i")
    from a have split: "phases k = take i (phases k) @ (p, f) # drop (Suc i) (phases k)"
      by (simp add: id_take_nth_drop pf [symmetric])
    have "run_phases (take i (phases k) @ (p, f) # drop (Suc i) (phases k)) c
        = run_phases ((p, f) # drop (Suc i) (phases k)) c1"
      using a by (simp add: run_phases_append)
    then have "run_phases (phases k) c = run_phases ((p, f) # drop (Suc i) (phases k)) c1"
      using split by simp
    with a pf show ?thesis
      by (simp add: process_def)
  qed
  have loop: "process_until k (Suc periods) c =
      (Aborted p e # fst (process_until k periods c'), snd (process_until k periods c'))"
    if "process k c = (Aborted p e, c')"
    using that by (simp split: prod.splits)
  have B: "checkAfterReboot k d = (Failed e, d')"
    if "nc_List d = (Inr items, d0)
      \<and> FilterNodesByRequirement items afterRebootReq = pre @ n # others
      \<and> range_nodes (checkReboot_body (beforeRebootAnnotations k) LabelAfterReboot constants_False)
           pre d0 = (Done, d1)
      \<and> hasAllAnnotations n (beforeRebootAnnotations k)
      \<and> UpdateNodeRetry (Name n)
           (exec_stmts (checkReboot_stmts (beforeRebootAnnotations k) LabelAfterReboot constants_False))
           d1 = (Failed e, d')"
    unfolding checkAfterReboot_def using that checkReboot_stops by blast
  have C: "markAfterReboot k d = (Failed e, d')"
    if "nc_List d = (Inr items, d0)
      \<and> FilterNodesByRequirement (FilterNodesByAnnotation items justRebootedSelector)
           notAfterRebootReq = pre @ n # others
      \<and> range_nodes (\<lambda>n. mark (Name n) LabelAfterReboot (afterRebootAnnotations k)) pre d0
           = (Done, d1)
      \<and> mark (Name n) LabelAfterReboot (afterRebootAnnotations k) d1 = (Failed e, d')"
    using that markAfterReboot_stops by blast
  have D: "checkBeforeReboot k d = (Failed e, d')"
    if "nc_List d = (Inr items, d0)
      \<and> FilterNodesByRequirement items beforeRebootReq = pre @ n # others
      \<and> range_nodes (checkReboot_body (beforeRebootAnnotations k) LabelBeforeReboot constants_True)
           pre d0 = (Done, d1)
      \<and> hasAllAnnotations n (beforeRebootAnnotations k)
      \<and> UpdateNodeRetry (Name n)
           (exec_stmts (checkReboot_stmts (beforeRebootAnnotations k) LabelBeforeReboot constants_True))
           d1 = (Failed e, d')"
    unfolding checkBeforeReboot_def using that checkReboot_stops by blast
  have E: "markBeforeReboot k d = (Failed e, d')"
    if "nc_List d = (Inr items, d0)
      \<and> insideRebootWindow k d0 = (True, d1)
      \<and> \<not> maxRebootingNodes \<le> length (rebootingNodes items)
      \<and> FilterNodesByRequirement (FilterNodesByAnnotation items rebootableSelector)
           notBeforeRebootReq = n # others
      \<and> mark (Name n) LabelBeforeReboot (beforeRebootAnnotations k) d1 = (Failed e, d')"
    using that markBeforeReboot_stops by blast
  from tick loop B C D E show ?thesis by blast
qed

theorem errors_abort_the_tick_witness:
  "fst (process no_hooks third_list_fails) = Aborted MarkAfter Unavailable
   \<and> fst (process_until no_hooks 2 third_list_fails) = [Aborted MarkAfter Unavailable, Completed]
   \<and> fst (checkAfterReboot no_hooks three_post_gating) = Failed Unavailable
   \<and> map (\<lambda>n. lookup (Labels n) LabelAfterReboot)
        (nodes (snd (checkAfterReboot no_hooks three_post_gating)))
        = [None, Some ''true'', Some ''true'']
   \<and> fst (markAfterReboot no_hooks three_just_rebooted) = Failed Unavailable
   \<and> map (\<lambda>n. lookup (Labels n) LabelAfterReboot)
        (nodes (snd (markAfterReboot no_hooks three_just_rebooted)))
        = [Some ''true'', None, None]
   \<and> fst (checkBeforeReboot no_hooks three_pre_gating) = Failed Unavailable
   \<and> map (\<lambda>n. lookup (Labels n) LabelBeforeReboot)
        (nodes (snd (checkBeforeReboot no_hooks three_pre_gating)))
        = [None, Some ''true'', Some ''true'']
   \<and> fst (markBeforeReboot no_hooks two_wanting_get_fails) = Failed Unavailable
   \<and> map (\<lambda>n. lookup (Labels n) LabelBeforeReboot)
        (nodes (snd (markBeforeReboot no_hooks two_wanting_get_fails)))
        = [None, None]"
proof -
  let ?c1 = "snd (run_phases (take 2 (phases no_hooks)) third_list_fails)"
  let ?c' = "snd (snd (phases no_hooks ! 2) ?c1)"
  have h1: "fst (run_phases (take 2 (phases no_hooks)) third_list_fails) = Completed"
    by code_simp
  have h2: "fst (snd (phases no_hooks ! 2) ?c1) = Failed Unavailable"
    by code_simp
  have h3: "fst (phases no_hooks ! 2) = MarkAfter" "2 < length (phases no_hooks)"
    by (simp_all add: phases_def)
  have p1: "run_phases (take 2 (phases no_hooks)) third_list_fails = (Completed, ?c1)"
    by (simp only: prod_eq_iff fst_conv snd_conv h1)
  have p2: "snd (phases no_hooks ! 2) ?c1 = (Failed Unavailable, ?c')"
    by (simp only: prod_eq_iff fst_conv snd_conv h2)
  have a: "process no_hooks third_list_fails = (Aborted MarkAfter Unavailable, ?c')"
    using errors_abort_the_tick [of 2 no_hooks third_list_fails ?c1 Unavailable ?c']
      p1 p2 h3 by simp
  have h4: "fst (process_until no_hooks 1 ?c') = [Completed]"
    by code_simp
  have b: "process_until no_hooks (Suc 1) third_list_fails =
      (Aborted MarkAfter Unavailable # fst (process_until no_hooks 1 ?c'),
       snd (process_until no_hooks 1 ?c'))"
    using errors_abort_the_tick [of _ no_hooks third_list_fails _ Unavailable ?c' MarkAfter 1] a
    by blast
  note tB = errors_abort_the_tick [THEN conjunct2, THEN conjunct2, THEN conjunct1, rule_format]
  note tC = errors_abort_the_tick [THEN conjunct2, THEN conjunct2, THEN conjunct2, THEN conjunct1,
      rule_format]
  note tD = errors_abort_the_tick [THEN conjunct2, THEN conjunct2, THEN conjunct2, THEN conjunct2,
      THEN conjunct1, rule_format]
  note tE = errors_abort_the_tick [THEN conjunct2, THEN conjunct2, THEN conjunct2, THEN conjunct2,
      THEN conjunct2, rule_format]
  have lst: "nc_List (fourth_call_fails ns) = (Inr ns, snd (nc_List (fourth_call_fails ns)))" for ns
    by (simp add: nc_List_def begin_call_def fourth_call_fails_def example_cluster_def)

  let ?p1 = "post_gating_node" and ?p2 = "post_gating_node\<lparr>Name := ''n2''\<rparr>"
    and ?p3 = "post_gating_node\<lparr>Name := ''n3''\<rparr>"
  let ?B0 = "snd (nc_List three_post_gating)"
  let ?bodyB = "checkReboot_body (beforeRebootAnnotations no_hooks) LabelAfterReboot constants_False"
  let ?B1 = "snd (range_nodes ?bodyB [?p1] ?B0)"
  let ?fB = "exec_stmts (checkReboot_stmts (beforeRebootAnnotations no_hooks) LabelAfterReboot
      constants_False)"
  have B_list: "nc_List three_post_gating = (Inr [?p1, ?p2, ?p3], ?B0)"
    unfolding three_post_gating_def by (rule lst)
  have B_filter: "FilterNodesByRequirement [?p1, ?p2, ?p3] afterRebootReq = [?p1] @ ?p2 # [?p3]"
    by (simp add: FilterNodesByRequirement_def afterRebootReq_def post_gating_node_def
        example_node_def lookup_def vocabulary_defs)
  have B_f: "fst (range_nodes ?bodyB [?p1] ?B0) = Done"
    by code_simp
  have B_range: "range_nodes ?bodyB [?p1] ?B0 = (Done, ?B1)"
    by (simp only: prod_eq_iff fst_conv snd_conv B_f)
  have B_has: "hasAllAnnotations ?p2 (beforeRebootAnnotations no_hooks)"
    by code_simp
  have B_u: "fst (UpdateNodeRetry (Name ?p2) ?fB ?B1) = Failed Unavailable"
    by code_simp
  have B_upd: "UpdateNodeRetry (Name ?p2) ?fB ?B1
      = (Failed Unavailable, snd (UpdateNodeRetry (Name ?p2) ?fB ?B1))"
    by (simp only: prod_eq_iff fst_conv snd_conv B_u)
  have "checkAfterReboot no_hooks three_post_gating
      = (Failed Unavailable, snd (UpdateNodeRetry (Name ?p2) ?fB ?B1))"
    by (rule tB, intro conjI, rule B_list, rule B_filter, rule B_range, rule B_has, rule B_upd)
  then have B: "fst (checkAfterReboot no_hooks three_post_gating) = Failed Unavailable"
    by (simp only: fst_conv)
  have Bv: "map (\<lambda>n. lookup (Labels n) LabelAfterReboot)
        (nodes (snd (checkAfterReboot no_hooks three_post_gating)))
        = [None, Some ''true'', Some ''true'']"
    by code_simp

  let ?j1 = "just_rebooted ''n1''" and ?j2 = "just_rebooted ''n2''" and ?j3 = "just_rebooted ''n3''"
  let ?C0 = "snd (nc_List three_just_rebooted)"
  let ?bodyC = "\<lambda>n. mark (Name n) LabelAfterReboot (afterRebootAnnotations no_hooks)"
  let ?C1 = "snd (range_nodes ?bodyC [?j1] ?C0)"
  have C_list: "nc_List three_just_rebooted = (Inr [?j1, ?j2, ?j3], ?C0)"
    unfolding three_just_rebooted_def by (rule lst)
  have C_filter: "FilterNodesByRequirement
      (FilterNodesByAnnotation [?j1, ?j2, ?j3] justRebootedSelector) notAfterRebootReq
      = [?j1] @ ?j2 # [?j3]"
    by (simp add: FilterNodesByRequirement_def FilterNodesByAnnotation_def notAfterRebootReq_def
        justRebootedSelector_def just_rebooted_def example_node_def lookup_def fields_Get_def
        vocabulary_defs)
  have C_f: "fst (range_nodes ?bodyC [?j1] ?C0) = Done"
    by code_simp
  have C_range: "range_nodes ?bodyC [?j1] ?C0 = (Done, ?C1)"
    by (simp only: prod_eq_iff fst_conv snd_conv C_f)
  have C_u: "fst (mark (Name ?j2) LabelAfterReboot (afterRebootAnnotations no_hooks) ?C1)
      = Failed Unavailable"
    by code_simp
  have C_upd: "mark (Name ?j2) LabelAfterReboot (afterRebootAnnotations no_hooks) ?C1
      = (Failed Unavailable,
         snd (mark (Name ?j2) LabelAfterReboot (afterRebootAnnotations no_hooks) ?C1))"
    by (simp only: prod_eq_iff fst_conv snd_conv C_u)
  have "markAfterReboot no_hooks three_just_rebooted
      = (Failed Unavailable,
         snd (mark (Name ?j2) LabelAfterReboot (afterRebootAnnotations no_hooks) ?C1))"
    by (rule tC, intro conjI, rule C_list, rule C_filter, rule C_range, rule C_upd)
  then have C: "fst (markAfterReboot no_hooks three_just_rebooted) = Failed Unavailable"
    by (simp only: fst_conv)
  have Cv: "map (\<lambda>n. lookup (Labels n) LabelAfterReboot)
        (nodes (snd (markAfterReboot no_hooks three_just_rebooted)))
        = [Some ''true'', None, None]"
    by code_simp

  let ?g1 = "pre_gating_node" and ?g2 = "pre_gating_node\<lparr>Name := ''n2''\<rparr>"
    and ?g3 = "pre_gating_node\<lparr>Name := ''n3''\<rparr>"
  let ?D0 = "snd (nc_List three_pre_gating)"
  let ?bodyD = "checkReboot_body (beforeRebootAnnotations no_hooks) LabelBeforeReboot constants_True"
  let ?D1 = "snd (range_nodes ?bodyD [?g1] ?D0)"
  let ?fD = "exec_stmts (checkReboot_stmts (beforeRebootAnnotations no_hooks) LabelBeforeReboot
      constants_True)"
  have D_list: "nc_List three_pre_gating = (Inr [?g1, ?g2, ?g3], ?D0)"
    unfolding three_pre_gating_def by (rule lst)
  have D_filter: "FilterNodesByRequirement [?g1, ?g2, ?g3] beforeRebootReq = [?g1] @ ?g2 # [?g3]"
    by (simp add: FilterNodesByRequirement_def beforeRebootReq_def pre_gating_node_def
        example_node_def lookup_def vocabulary_defs)
  have D_f: "fst (range_nodes ?bodyD [?g1] ?D0) = Done"
    by code_simp
  have D_range: "range_nodes ?bodyD [?g1] ?D0 = (Done, ?D1)"
    by (simp only: prod_eq_iff fst_conv snd_conv D_f)
  have D_has: "hasAllAnnotations ?g2 (beforeRebootAnnotations no_hooks)"
    by code_simp
  have D_u: "fst (UpdateNodeRetry (Name ?g2) ?fD ?D1) = Failed Unavailable"
    by code_simp
  have D_upd: "UpdateNodeRetry (Name ?g2) ?fD ?D1
      = (Failed Unavailable, snd (UpdateNodeRetry (Name ?g2) ?fD ?D1))"
    by (simp only: prod_eq_iff fst_conv snd_conv D_u)
  have "checkBeforeReboot no_hooks three_pre_gating
      = (Failed Unavailable, snd (UpdateNodeRetry (Name ?g2) ?fD ?D1))"
    by (rule tD, intro conjI, rule D_list, rule D_filter, rule D_range, rule D_has, rule D_upd)
  then have D: "fst (checkBeforeReboot no_hooks three_pre_gating) = Failed Unavailable"
    by (simp only: fst_conv)
  have Dv: "map (\<lambda>n. lookup (Labels n) LabelBeforeReboot)
        (nodes (snd (checkBeforeReboot no_hooks three_pre_gating)))
        = [None, Some ''true'', Some ''true'']"
    by code_simp

  let ?w1 = "wants_reboot_node" and ?w2 = "wants_reboot_node\<lparr>Name := ''n2''\<rparr>"
  let ?E0 = "snd (nc_List two_wanting_get_fails)"
  have E_list: "nc_List two_wanting_get_fails = (Inr [?w1, ?w2], ?E0)"
    by (simp add: nc_List_def begin_call_def two_wanting_get_fails_def example_cluster_def)
  have E_win: "insideRebootWindow no_hooks ?E0 = (True, ?E0)"
    by (simp add: insideRebootWindow_def no_hooks_def)
  have E_count: "\<not> maxRebootingNodes \<le> length (rebootingNodes [?w1, ?w2])"
    by code_simp
  have E_filter: "FilterNodesByRequirement
      (FilterNodesByAnnotation [?w1, ?w2] rebootableSelector) notBeforeRebootReq = ?w1 # [?w2]"
    by (simp add: FilterNodesByRequirement_def FilterNodesByAnnotation_def notBeforeRebootReq_def
        rebootableSelector_def wants_reboot_node_def example_node_def lookup_def fields_Get_def
        vocabulary_defs)
  have E_u: "fst (mark (Name ?w1) LabelBeforeReboot (beforeRebootAnnotations no_hooks) ?E0)
      = Failed Unavailable"
    by code_simp
  have E_upd: "mark (Name ?w1) LabelBeforeReboot (beforeRebootAnnotations no_hooks) ?E0
      = (Failed Unavailable,
         snd (mark (Name ?w1) LabelBeforeReboot (beforeRebootAnnotations no_hooks) ?E0))"
    by (simp only: prod_eq_iff fst_conv snd_conv E_u)
  have "markBeforeReboot no_hooks two_wanting_get_fails
      = (Failed Unavailable,
         snd (mark (Name ?w1) LabelBeforeReboot (beforeRebootAnnotations no_hooks) ?E0))"
    by (rule tE, intro conjI, rule E_list, rule E_win, rule E_count, rule E_filter, rule E_upd)
  then have E: "fst (markBeforeReboot no_hooks two_wanting_get_fails) = Failed Unavailable"
    by (simp only: fst_conv)
  have Ev: "map (\<lambda>n. lookup (Labels n) LabelBeforeReboot)
        (nodes (snd (markBeforeReboot no_hooks two_wanting_get_fails)))
        = [None, None]"
    by code_simp
  show ?thesis
    using a b h4 B Bv C Cv D Dv E Ev by (simp add: numeral_2_eq_2)
qed

section \<open>The reboot window\<close>

lemma time_Now_keeps:
  "time_Now c = (t, c') \<Longrightarrow> nodes c' = nodes c \<and> calls c' = calls c \<and> schedule c' = schedule c"
  by (auto simp add: time_Now_def split: list.splits)

lemma insideRebootWindow_keeps:
  assumes "insideRebootWindow k c = (b, c')"
  shows "nodes c' = nodes c \<and> calls c' = calls c \<and> schedule c' = schedule c"
proof (cases "rebootWindow k")
  case None
  with assms show ?thesis by (simp add: insideRebootWindow_def)
next
  case (Some w)
  obtain t1 c1 where t1: "time_Now c = (t1, c1)" by (cases "time_Now c")
  obtain t2 c2 where t2: "time_Now c1 = (t2, c2)" by (cases "time_Now c1")
  from assms Some t1 t2 have "c' = c2" by (simp add: insideRebootWindow_def)
  with time_Now_keeps [OF t1] time_Now_keeps [OF t2] show ?thesis by simp
qed

lemma nc_List_result:
  "nc_List c = (r, c') \<Longrightarrow> r = Inl Unavailable \<or> r = Inr (nodes c')"
  by (auto simp add: nc_List_def split: prod.splits bool.splits)

lemma Previous_Start:
  "0 < interval w \<Longrightarrow> Start (Previous w t) \<le> t \<and> t < Start (Previous w t) + interval w
     \<and> End (Previous w t) = Start (Previous w t) + duration w"
  by (simp add: Previous_def Let_def)

text \<open>
  C6. With no window configured the guard of \<open>markBeforeReboot\<close> lets every tick pass.
  With a window, and a clock that does not run backwards between the two readings, the
  guard passes exactly when the second reading lies in the interval from the start of the
  previous occurrence to that start plus the length of the window. When the guard does
  not pass, \<open>markBeforeReboot\<close> makes the one call that lists the nodes and no other: no
  node is labelled.
\<close>

theorem window_guard:
  "(rebootWindow k = None \<longrightarrow> insideRebootWindow k c = (True, c))
   \<and> (rebootWindow k = Some w \<and> 0 < interval w
        \<and> time_Now c = (t1, c1) \<and> time_Now c1 = (t2, c2) \<and> t1 \<le> t2
      \<longrightarrow> fst (insideRebootWindow k c)
            = (Start (Previous w t1) \<le> t2 \<and> t2 < Start (Previous w t1) + duration w))
   \<and> (\<not> fst (insideRebootWindow k (snd (nc_List d)))
      \<longrightarrow> calls (snd (markBeforeReboot k d)) = ListCall # calls d
          \<and> nodes (snd (markBeforeReboot k d)) = nodes (snd (nc_List d))
          \<and> (fst (markBeforeReboot k d) = Done \<or> fst (markBeforeReboot k d) = Failed Unavailable))"
proof -
  have none: "insideRebootWindow k c = (True, c)" if "rebootWindow k = None"
    using that by (simp add: insideRebootWindow_def)
  have some: "fst (insideRebootWindow k c)
            = (Start (Previous w t1) \<le> t2 \<and> t2 < Start (Previous w t1) + duration w)"
    if a: "rebootWindow k = Some w \<and> 0 < interval w
        \<and> time_Now c = (t1, c1) \<and> time_Now c1 = (t2, c2) \<and> t1 \<le> t2"
  proof -
    have "Start (Previous w t1) \<le> t2"
      using a Previous_Start [of w t1] by simp
    moreover have "fst (insideRebootWindow k c) = (t2 < End (Previous w t1))"
      using a by (simp add: insideRebootWindow_def)
    ultimately show ?thesis
      using a Previous_Start [of w t1] by simp
  qed
  have outside: "calls (snd (markBeforeReboot k d)) = ListCall # calls d
          \<and> nodes (snd (markBeforeReboot k d)) = nodes (snd (nc_List d))
          \<and> (fst (markBeforeReboot k d) = Done \<or> fst (markBeforeReboot k d) = Failed Unavailable)"
    if out: "\<not> fst (insideRebootWindow k (snd (nc_List d)))"
  proof -
    obtain r d1 where l: "nc_List d = (r, d1)" by (cases "nc_List d")
    obtain b d2 where w: "insideRebootWindow k d1 = (b, d2)" by (cases "insideRebootWindow k d1")
    have nb: "\<not> b" using out l w by simp
    note lc = nc_List_calls [OF l]
    note wk = insideRebootWindow_keeps [OF w]
    have res: "markBeforeReboot k d =
        (case r of Inl err \<Rightarrow> (Failed err, d1) | Inr items \<Rightarrow> (Done, d2))"
      using l w nb by (simp add: markBeforeReboot_def split: sum.splits)
    show ?thesis
      using res lc wk l nc_List_result [OF l] by (auto split: sum.splits)
  qed
  show ?thesis
    using none some outside by blast
qed

theorem window_guard_witness:
  "insideRebootWindow no_hooks (at_time 7199 (example_cluster [wants_reboot_node] []))
     = (True, at_time 7199 (example_cluster [wants_reboot_node] []))
   \<and> \<not> fst (insideRebootWindow windowed (at_time 7199 (example_cluster [wants_reboot_node] [])))
   \<and> fst (insideRebootWindow windowed (at_time 7200 (example_cluster [wants_reboot_node] [])))
   \<and> calls (snd (markBeforeReboot windowed (at_time 7199 (example_cluster [wants_reboot_node] []))))
        = [ListCall]
   \<and> map (\<lambda>n. lookup (Labels n) LabelBeforeReboot)
        (nodes (snd (markBeforeReboot windowed (at_time 7199 (example_cluster [wants_reboot_node] [])))))
        = [None]
   \<and> map (\<lambda>n. lookup (Labels n) LabelBeforeReboot)
        (nodes (snd (markBeforeReboot windowed (at_time 7200 (example_cluster [wants_reboot_node] [])))))
        = [Some ''true'']"
proof -
  let ?c = "\<lambda>t. at_time t (example_cluster [wants_reboot_node] [])"
  have now: "time_Now (?c t) = (t, ?c t)" for t
    by (simp add: time_Now_def at_time_def)
  have lst: "snd (nc_List (?c t)) = (?c t)\<lparr>calls := [ListCall]\<rparr>" for t
    by (simp add: nc_List_def begin_call_def at_time_def example_cluster_def)
  have now': "time_Now ((?c t)\<lparr>calls := [ListCall]\<rparr>) = (t, (?c t)\<lparr>calls := [ListCall]\<rparr>)" for t
    by (simp add: time_Now_def at_time_def)
  have w: "rebootWindow windowed = Some nightly" "0 < interval nightly" "rebootWindow no_hooks = None"
    by (simp_all add: windowed_def nightly_def no_hooks_def)
  have P: "Start (Previous nightly 7199) = - 79200" "Start (Previous nightly 7200) = 7200"
    "duration nightly = 3600"
    by (simp_all add: Previous_def nightly_def)
  have a: "insideRebootWindow no_hooks (?c 7199) = (True, ?c 7199)"
    using window_guard [of no_hooks "?c 7199"] w by blast
  have b: "\<not> fst (insideRebootWindow windowed (?c 7199))"
    using window_guard [of windowed "?c 7199" nightly 7199 "?c 7199" 7199 "?c 7199"] w now P
    by simp
  have c: "fst (insideRebootWindow windowed (?c 7200))"
    using window_guard [of windowed "?c 7200" nightly 7200 "?c 7200" 7200 "?c 7200"] w now P
    by simp
  have b': "\<not> fst (insideRebootWindow windowed (snd (nc_List (?c 7199))))"
    using window_guard [of windowed "(?c 7199)\<lparr>calls := [ListCall]\<rparr>" nightly 7199
        "(?c 7199)\<lparr>calls := [ListCall]\<rparr>" 7199 "(?c 7199)\<lparr>calls := [ListCall]\<rparr>"] w now' P lst
    by simp
  have d: "calls (snd (markBeforeReboot windowed (?c 7199))) = ListCall # calls (?c 7199)
      \<and> nodes (snd (markBeforeReboot windowed (?c 7199))) = nodes (snd (nc_List (?c 7199)))"
    using window_guard [of windowed _ _ _ _ _ _ "?c 7199"] b' by blast
  have e: "map (\<lambda>n. lookup (Labels n) LabelBeforeReboot) (nodes (snd (nc_List (?c 7199)))) = [None]"
    by code_simp
  have f: "map (\<lambda>n. lookup (Labels n) LabelBeforeReboot)
        (nodes (snd (markBeforeReboot windowed (?c 7200)))) = [Some ''true'']"
    by code_simp
  have g: "calls (?c 7199) = []"
    by (simp add: at_time_def example_cluster_def)
  show ?thesis
    using a b c d e f g by simp
qed

section \<open>The quiet environment\<close>

lemma begin_call_quiet:
  "quiet (schedule c) \<Longrightarrow> begin_call cl c = (b, c') \<Longrightarrow>
     nodes c' = nodes c \<and> quiet (schedule c') \<and> clock c' = clock c"
  by (auto simp add: begin_call_def split: list.splits event.splits)

lemma nc_List_quiet:
  "quiet (schedule c) \<Longrightarrow> nc_List c = (r, c') \<Longrightarrow>
     nodes c' = nodes c \<and> quiet (schedule c') \<and> clock c' = clock c
     \<and> (r = Inl Unavailable \<or> r = Inr (nodes c))"
  by (auto simp add: nc_List_def split: prod.splits bool.splits dest: begin_call_quiet)

lemma nc_Get_quiet:
  "quiet (schedule c) \<Longrightarrow> nc_Get nm c = (r, c') \<Longrightarrow>
     nodes c' = nodes c \<and> quiet (schedule c') \<and> clock c' = clock c
     \<and> (\<forall>n. r = Inr n \<longrightarrow> find (\<lambda>m. Name m = nm) (nodes c) = Some n)"
  by (auto simp add: nc_Get_def split: prod.splits bool.splits option.splits dest: begin_call_quiet)

lemma nc_Update_quiet:
  "quiet (schedule c) \<Longrightarrow> nc_Update n c = (r, c') \<Longrightarrow>
     quiet (schedule c') \<and> clock c' = clock c
     \<and> (case r of
           Inl e \<Rightarrow> nodes c' = nodes c
              \<and> (e = Conflict \<longrightarrow> (\<exists>cur. find (\<lambda>m. Name m = Name n) (nodes c) = Some cur
                      \<and> ResourceVersion n \<noteq> ResourceVersion cur))
         | Inr n' \<Rightarrow> n' = n\<lparr>ResourceVersion := Suc (ResourceVersion n)\<rparr>
              \<and> nodes c' = store n' (nodes c))"
  by (auto simp add: nc_Update_def Let_def split: prod.splits bool.splits option.splits if_splits
      dest: begin_call_quiet)

lemma update_attempt_quiet:
  assumes "quiet (schedule c)" and "keeps_identity f" and "update_attempt nm f c = (r, c')"
  shows "quiet (schedule c') \<and> clock c' = clock c \<and> r \<noteq> Failed Conflict
     \<and> (r = Done \<longrightarrow> (\<exists>n n'. find (\<lambda>m. Name m = nm) (nodes c) = Some n \<and> f n = Some n'
            \<and> nodes c' = store (n'\<lparr>ResourceVersion := Suc (ResourceVersion n)\<rparr>) (nodes c)))
     \<and> (r \<noteq> Done \<longrightarrow> nodes c' = nodes c)"
proof (cases "nc_Get nm c")
  case (Pair g c1)
  note get = nc_Get_quiet [OF assms(1) Pair]
  show ?thesis
  proof (cases g)
    case (Inl e)
    with Pair assms(3) get show ?thesis
      by (auto simp add: update_attempt_def nc_Get_def split: prod.splits bool.splits option.splits)
  next
    case (Inr n)
    then have found: "find (\<lambda>m. Name m = nm) (nodes c) = Some n"
      using get by simp
    show ?thesis
    proof (cases "f n")
      case None
      with Pair Inr assms(3) get show ?thesis
        by (auto simp add: update_attempt_def)
    next
      case (Some n')
      then have id: "Name n' = Name n" "ResourceVersion n' = ResourceVersion n"
        using assms(2) by (auto simp add: keeps_identity_def)
      have nm: "Name n = nm"
        using found by (auto simp add: find_Some_iff)
      obtain u c2 where upd: "nc_Update n' c1 = (u, c2)"
        by (cases "nc_Update n' c1")
      have q1: "quiet (schedule c1)" using get by simp
      note up = nc_Update_quiet [OF q1 upd]
      have res: "(r, c') = (case u of Inl err \<Rightarrow> (Failed err, c2) | Inr x \<Rightarrow> (Done, c2))"
        using assms(3) Pair Inr Some upd by (simp add: update_attempt_def)
      show ?thesis
      proof (cases u)
        case (Inl e)
        with res up get found id nm show ?thesis by auto
      next
        case (Inr x)
        with res up get found id nm Some show ?thesis by auto
      qed
    qed
  qed
qed

lemma UpdateNodeRetry_quiet:
  assumes "quiet (schedule c)" and "keeps_identity f" and "UpdateNodeRetry nm f c = (r, c')"
  shows "quiet (schedule c') \<and> clock c' = clock c
     \<and> (r = Done \<longrightarrow> (\<exists>n n'. find (\<lambda>m. Name m = nm) (nodes c) = Some n \<and> f n = Some n'
            \<and> nodes c' = store (n'\<lparr>ResourceVersion := Suc (ResourceVersion n)\<rparr>) (nodes c)))
     \<and> (r \<noteq> Done \<longrightarrow> nodes c' = nodes c)"
proof -
  obtain r1 c1 where a: "update_attempt nm f c = (r1, c1)"
    by (cases "update_attempt nm f c")
  note at = update_attempt_quiet [OF assms(1,2) a]
  have "UpdateNodeRetry nm f c = (r1, c1)"
    using a at
    by (cases r1) (auto simp add: UpdateNodeRetry_def RetryOnConflict_def DefaultBackoff_Steps_def
        numeral_eq_Suc split: error.splits)
  with assms(3) at show ?thesis by simp
qed

lemma find_distinct:
  "distinct (map Name (pre @ h # post)) \<Longrightarrow>
     find (\<lambda>m. Name m = Name h) (pre @ h # post) = Some h"
  by (induction pre) auto

lemma store_distinct:
  assumes "distinct (map Name (pre @ h # post))" and "Name x = Name h"
  shows "store x (pre @ h # post) = pre @ x # post"
proof -
  have a: "\<forall>m \<in> set pre. Name m \<noteq> Name h" "\<forall>m \<in> set post. Name m \<noteq> Name h"
    using assms(1) by (auto simp add: image_iff)
  have "map (\<lambda>m. if Name m = Name h then x else m) pre = pre"
    using a(1) by (intro map_idI) simp
  moreover have "map (\<lambda>m. if Name m = Name h then x else m) post = post"
    using a(2) by (intro map_idI) simp
  ultimately show ?thesis
    using assms(2) by (simp add: store_def)
qed

lemma UpdateNodeRetry_quiet_distinct:
  assumes "quiet (schedule c)" and "keeps_identity f"
    and "nodes c = pre @ h # post" and "distinct (map Name (nodes c))"
    and "UpdateNodeRetry (Name h) f c = (r, c')"
  shows "quiet (schedule c') \<and> clock c' = clock c
     \<and> (r = Done \<longrightarrow> f h \<noteq> None \<and> nodes c' = pre @ stored f h # post)
     \<and> (r \<noteq> Done \<longrightarrow> nodes c' = nodes c)"
proof -
  note u = UpdateNodeRetry_quiet [OF assms(1,2,5)]
  have f: "find (\<lambda>m. Name m = Name h) (nodes c) = Some h"
    using assms(3,4) find_distinct by simp
  have "f h \<noteq> None \<and> nodes c' = pre @ stored f h # post" if "r = Done"
  proof -
    from u that f obtain n' where n': "f h = Some n'"
      "nodes c' = store (n'\<lparr>ResourceVersion := Suc (ResourceVersion h)\<rparr>) (nodes c)"
      by auto
    have "Name n' = Name h"
      using n'(1) assms(2) by (simp add: keeps_identity_def)
    then have "store (n'\<lparr>ResourceVersion := Suc (ResourceVersion h)\<rparr>) (pre @ h # post)
        = pre @ n'\<lparr>ResourceVersion := Suc (ResourceVersion h)\<rparr> # post"
      using assms(3,4) by (intro store_distinct) simp_all
    with n' assms(3) show ?thesis by (simp add: stored_def)
  qed
  with u show ?thesis by blast
qed

lemma range_update_quiet:
  assumes keeps: "keeps_identity f"
  shows "quiet (schedule c) \<Longrightarrow> nodes c = pre @ items \<Longrightarrow> distinct (map Name (nodes c)) \<Longrightarrow>
     range_nodes (\<lambda>n. UpdateNodeRetry (Name n) f) items c = (r, c') \<Longrightarrow>
     quiet (schedule c') \<and> (r = Done \<longrightarrow> nodes c' = pre @ map (stored f) items)"
proof (induction items arbitrary: pre c)
  case Nil
  then show ?case by simp
next
  case (Cons h t)
  obtain r1 c1 where u: "UpdateNodeRetry (Name h) f c = (r1, c1)"
    by (cases "UpdateNodeRetry (Name h) f c")
  note q = UpdateNodeRetry_quiet_distinct [OF Cons.prems(1) keeps Cons.prems(2,3) u]
  show ?case
  proof (cases "r1 = Done")
    case False
    with Cons.prems(4) u have "r = r1" "c' = c1"
      by (cases r1; simp)+
    with False q show ?thesis by simp
  next
    case True
    with Cons.prems(4) u have rest: "range_nodes (\<lambda>n. UpdateNodeRetry (Name n) f) t c1 = (r, c')"
      by simp
    have n1: "nodes c1 = (pre @ [stored f h]) @ t"
      using q True by simp
    obtain n' where n': "f h = Some n'" using q True by auto
    then have "Name (stored f h) = Name h"
      using keeps by (simp add: stored_def keeps_identity_def)
    then have d1: "distinct (map Name (nodes c1))"
      using Cons.prems(2,3) n1 by simp
    have q1: "quiet (schedule c1)" using q by simp
    from Cons.IH [OF q1 n1 d1 rest] show ?thesis by simp
  qed
qed

lemma keeps_identity_exec_stmt:
  "exec_stmt st n = Some n' \<Longrightarrow> Name n' = Name n \<and> ResourceVersion n' = ResourceVersion n"
  by (cases st) (auto split: option.splits)

lemma keeps_identity_exec_stmts: "keeps_identity (exec_stmts sts)"
  unfolding keeps_identity_def
proof (induction sts)
  case Nil
  then show ?case by simp
next
  case (Cons st sts)
  then show ?case
    by (auto split: option.splits dest: keeps_identity_exec_stmt)
qed

lemma keeps_identity_cleanup: "keeps_identity (cleanup_mutator k)"
  using keeps_identity_exec_stmts [of "cleanup_stmts k"]
  by (auto simp add: keeps_identity_def cleanup_mutator_def split: if_splits)

lemma stored_cleanup:
  "stored (cleanup_mutator k) n =
     (if lookup (Labels n) LabelBeforeReboot \<noteq> None \<and> \<not> Matches rebootableSelector (Annotations n)
      then n\<lparr>Labels := map_delete LabelBeforeReboot (Labels n),
             Annotations := fold map_delete (beforeRebootAnnotations k) (Annotations n),
             ResourceVersion := Suc (ResourceVersion n)\<rparr>
      else n\<lparr>ResourceVersion := Suc (ResourceVersion n)\<rparr>)"
  by (simp add: stored_def cleanup_mutator_def exec_cleanup_stmts)

section \<open>Phase A: cleanup\<close>

text \<open>
  C5 (as amended). In a quiet environment, on a cluster whose node names are unique, a
  \<open>cleanupState\<close> that returns without an error has changed the nodes as follows. A node
  that carries the label \<open>before-reboot\<close>, with whatever value, and is not rebootable
  has lost that label and every configured before-reboot annotation, and kept its other
  labels and annotations. Every other node has its labels and annotations unchanged.
\<close>

theorem cleanupState_restores_I2:
  assumes "quiet (schedule c)" and "distinct (map Name (nodes c))"
    and "cleanupState k c = (Done, c')"
  shows "length (nodes c') = length (nodes c)
    \<and> (\<forall>i < length (nodes c).
          Name (nodes c' ! i) = Name (nodes c ! i)
          \<and> Spec_Unschedulable (nodes c' ! i) = Spec_Unschedulable (nodes c ! i)
          \<and> (if lookup (Labels (nodes c ! i)) LabelBeforeReboot \<noteq> None
                \<and> \<not> Matches rebootableSelector (Annotations (nodes c ! i))
             then lookup (Labels (nodes c' ! i)) LabelBeforeReboot = None
                \<and> (\<forall>a \<in> set (beforeRebootAnnotations k).
                      lookup (Annotations (nodes c' ! i)) a = None)
                \<and> (\<forall>l. l \<noteq> LabelBeforeReboot \<longrightarrow>
                      lookup (Labels (nodes c' ! i)) l = lookup (Labels (nodes c ! i)) l)
                \<and> (\<forall>a. a \<notin> set (beforeRebootAnnotations k) \<longrightarrow>
                      lookup (Annotations (nodes c' ! i)) a = lookup (Annotations (nodes c ! i)) a)
             else Labels (nodes c' ! i) = Labels (nodes c ! i)
                \<and> Annotations (nodes c' ! i) = Annotations (nodes c ! i)))"
proof -
  obtain r0 c0 where l: "nc_List c = (r0, c0)" by (cases "nc_List c")
  note lq = nc_List_quiet [OF assms(1) l]
  have r0: "r0 = Inr (nodes c)"
    using lq l assms(3) by (auto simp add: cleanupState_def)
  then have loop: "range_nodes (\<lambda>n. UpdateNodeRetry (Name n) (cleanup_mutator k)) (nodes c) c0 = (Done, c')"
    using l assms(3) by (simp add: cleanupState_def)
  have "nodes c' = [] @ map (stored (cleanup_mutator k)) (nodes c)"
    using range_update_quiet [OF keeps_identity_cleanup _ _ _ loop, of "[]"] lq assms(2) by simp
  then have eq: "nodes c' = map (stored (cleanup_mutator k)) (nodes c)" by simp
  show ?thesis
    unfolding eq
    by (simp add: stored_cleanup lookup_map_delete lookup_fold_delete)
qed

theorem cleanupState_restores_I2_witness:
  "lookup (Labels (nodes (snd (cleanupState before_hook_only two_pre_gating)) ! 0)) LabelBeforeReboot = None
   \<and> lookup (Annotations (nodes (snd (cleanupState before_hook_only two_pre_gating)) ! 0))
        ''example.com/drained'' = None
   \<and> lookup (Labels (nodes (snd (cleanupState before_hook_only two_pre_gating)) ! 0)) ''zone''
        = Some ''a''
   \<and> Labels (nodes (snd (cleanupState before_hook_only two_pre_gating)) ! 1)
        = Labels (nodes two_pre_gating ! 1)
   \<and> Annotations (nodes (snd (cleanupState before_hook_only two_pre_gating)) ! 1)
        = Annotations (nodes two_pre_gating ! 1)
   \<and> lookup (Labels (nodes two_pre_gating ! 1)) LabelBeforeReboot = Some ''true''"
proof -
  let ?c' = "snd (cleanupState before_hook_only two_pre_gating)"
  have h: "fst (cleanupState before_hook_only two_pre_gating) = Done"
    by code_simp
  have p: "cleanupState before_hook_only two_pre_gating = (Done, ?c')"
    by (simp only: prod_eq_iff fst_conv snd_conv h)
  have q: "quiet (schedule two_pre_gating)" "distinct (map Name (nodes two_pre_gating))"
    by (simp_all add: two_pre_gating_def example_cluster_def withdrawn_node_def
        pre_gating_node_def example_node_def)
  have n: "nodes two_pre_gating ! 0 = withdrawn_node"
    "nodes two_pre_gating ! 1 = pre_gating_node\<lparr>Name := ''n2''\<rparr>"
    "nodes two_pre_gating ! Suc 0 = pre_gating_node\<lparr>Name := ''n2''\<rparr>"
    "length (nodes two_pre_gating) = 2"
    by (simp_all add: two_pre_gating_def example_cluster_def)
  have s: "lookup (Labels withdrawn_node) LabelBeforeReboot \<noteq> None"
    "\<not> Matches rebootableSelector (Annotations withdrawn_node)"
    "Matches rebootableSelector (Annotations pre_gating_node)"
    "lookup (Labels withdrawn_node) ''zone'' = Some ''a''"
    "lookup (Labels pre_gating_node) LabelBeforeReboot = Some ''true''"
    "beforeRebootAnnotations before_hook_only = [''example.com/drained'']"
    "''zone'' \<noteq> LabelBeforeReboot"
    by (simp_all add: withdrawn_node_def pre_gating_node_def example_node_def lookup_def
        rebootableSelector_def fields_Get_def vocabulary_defs before_hook_only_def)
  note t = conjunct2 [OF cleanupState_restores_I2 [OF q p]]
  have t0: "lookup (Labels (nodes ?c' ! 0)) LabelBeforeReboot = None
      \<and> lookup (Annotations (nodes ?c' ! 0)) ''example.com/drained'' = None
      \<and> lookup (Labels (nodes ?c' ! 0)) ''zone'' = Some ''a''"
    using t [rule_format, of 0] by (simp add: n s)
  have t1: "Labels (nodes ?c' ! 1) = Labels (nodes two_pre_gating ! 1)
      \<and> Annotations (nodes ?c' ! 1) = Annotations (nodes two_pre_gating ! 1)"
    using t [rule_format, of 1] by (simp add: n s)
  from t0 t1 s(5) show ?thesis by (simp add: n)
qed

text \<open>
  C5 as stated fails: a node whose label \<open>before-reboot\<close> is \<open>"false"\<close> does not carry
  \<open>before-reboot=true\<close>, and \<open>cleanupState\<close> still deletes the label and the hook
  annotation.
\<close>

theorem cleanupState_any_value_counterexample:
  "\<not> req_Matches beforeRebootReq (Labels stray_label_node)
   \<and> (lookup (Labels stray_label_node) LabelBeforeReboot,
      lookup (Annotations stray_label_node) ''example.com/drained'') = (Some ''false'', Some ''true'')
   \<and> map (\<lambda>n. (lookup (Labels n) LabelBeforeReboot, lookup (Annotations n) ''example.com/drained''))
       (nodes (snd (cleanupState before_hook_only (example_cluster [stray_label_node] []))))
     = [(None, None)]"
  by code_simp

section \<open>Phase E: admitting new reboots\<close>

lemma not_before_iff:
  "req_Matches notBeforeRebootReq ls \<longleftrightarrow> \<not> req_Matches beforeRebootReq ls"
  by (simp add: notBeforeRebootReq_def beforeRebootReq_def split: option.splits)

lemma rebootingNodes_empty_iff:
  "rebootingNodes ns = [] \<longleftrightarrow> filter inFlight ns = []"
  by (auto simp add: rebootingNodes_def FilterNodesByAnnotation_def FilterNodesByRequirement_def
      inFlight_def filter_empty_conv)

lemma inFlightNames_empty_iff:
  "inFlightNames ns = {} \<longleftrightarrow> filter inFlight ns = []"
  by (auto simp add: inFlightNames_def FilterNodesByAnnotation_def FilterNodesByRequirement_def
      inFlight_def filter_empty_conv)

lemma finite_inFlightNames: "finite (inFlightNames ns)"
  by (simp add: inFlightNames_def)

lemma count_test:
  "maxRebootingNodes \<le> length (rebootingNodes ns) \<longleftrightarrow> maxRebootingNodes \<le> card (inFlightNames ns)"
proof -
  have "maxRebootingNodes \<le> length (rebootingNodes ns) \<longleftrightarrow> rebootingNodes ns \<noteq> []"
    by (cases "rebootingNodes ns") (simp_all add: maxRebootingNodes_def)
  also have "\<dots> \<longleftrightarrow> inFlightNames ns \<noteq> {}"
    by (simp add: rebootingNodes_empty_iff inFlightNames_empty_iff)
  also have "\<dots> \<longleftrightarrow> maxRebootingNodes \<le> card (inFlightNames ns)"
    using finite_inFlightNames [of ns]
    by (auto simp add: maxRebootingNodes_def Suc_le_eq card_gt_0_iff)
  finally show ?thesis .
qed

lemma budget_eq:
  assumes "\<not> maxRebootingNodes \<le> length (rebootingNodes ns)"
  shows "maxRebootingNodes - length (rebootingNodes ns) = maxRebootingNodes - card (inFlightNames ns)"
proof -
  have "\<not> maxRebootingNodes \<le> card (inFlightNames ns)"
    using assms count_test by simp
  with assms show ?thesis by (simp add: maxRebootingNodes_def)
qed

text \<open>What Phase E does to the list of nodes, in a quiet environment.\<close>

lemma markBeforeReboot_quiet:
  assumes "quiet (schedule c)" and "distinct (map Name (nodes c))"
  shows "nodes (snd (markBeforeReboot k c)) = nodes c
    \<or> (rebootingNodes (nodes c) = []
       \<and> (\<exists>pre h post x. nodes c = pre @ h # post
            \<and> Matches rebootableSelector (Annotations h)
            \<and> \<not> req_Matches beforeRebootReq (Labels h)
            \<and> exec_stmts (mark_stmts LabelBeforeReboot (beforeRebootAnnotations k)) h = Some x
            \<and> nodes (snd (markBeforeReboot k c))
                = pre @ x\<lparr>ResourceVersion := Suc (ResourceVersion h)\<rparr> # post))"
proof -
  let ?f = "exec_stmts (mark_stmts LabelBeforeReboot (beforeRebootAnnotations k))"
  obtain r0 c0 where l: "nc_List c = (r0, c0)" by (cases "nc_List c")
  note lq = nc_List_quiet [OF assms(1) l]
  obtain b c1 where w: "insideRebootWindow k c0 = (b, c1)" by (cases "insideRebootWindow k c0")
  note wk = insideRebootWindow_keeps [OF w]
  have n1: "nodes c1 = nodes c" "quiet (schedule c1)"
    using lq wk by simp_all
  show ?thesis
  proof (cases "r0 = Inr (nodes c) \<and> b \<and> \<not> maxRebootingNodes \<le> length (rebootingNodes (nodes c))
      \<and> FilterNodesByRequirement (FilterNodesByAnnotation (nodes c) rebootableSelector)
           notBeforeRebootReq \<noteq> []")
    case False
    then have "nodes (snd (markBeforeReboot k c)) = nodes c"
      using l w lq n1
      by (auto simp add: markBeforeReboot_def markBeforeReboot_admit_def Let_def
          split: sum.splits bool.splits)
    then show ?thesis by simp
  next
    case True
    let ?cands = "FilterNodesByRequirement (FilterNodesByAnnotation (nodes c) rebootableSelector)
           notBeforeRebootReq"
    from True obtain h t where cands: "?cands = h # t"
      by (cases ?cands) auto
    have none: "rebootingNodes (nodes c) = []"
      using True by (cases "rebootingNodes (nodes c)") (simp_all add: maxRebootingNodes_def)
    have h: "h \<in> set (nodes c)" "Matches rebootableSelector (Annotations h)"
      "\<not> req_Matches beforeRebootReq (Labels h)"
      using cands [symmetric] not_before_iff
      by (auto simp add: FilterNodesByRequirement_def FilterNodesByAnnotation_def
          dest!: Cons_eq_filterD)
    from h(1) obtain pre post where split: "nodes c = pre @ h # post"
      by (auto dest: split_list)
    obtain r c' where m: "UpdateNodeRetry (Name h) ?f c1 = (r, c')"
      by (cases "UpdateNodeRetry (Name h) ?f c1")
    have res: "markBeforeReboot k c = (r, c')"
      using True l w cands none m
      by (cases r) (simp_all add: markBeforeReboot_def markBeforeReboot_admit_def Let_def
          maxRebootingNodes_def mark_def)
    have d1: "distinct (map Name (nodes c1))" "nodes c1 = pre @ h # post"
      using n1 assms(2) split by simp_all
    note u = UpdateNodeRetry_quiet_distinct [OF n1(2) keeps_identity_exec_stmts d1(2,1) m]
    show ?thesis
    proof (cases "r = Done")
      case False
      with u res n1 show ?thesis by simp
    next
      case True
      with u obtain x where x: "?f h = Some x" "nodes c' = pre @ stored ?f h # post"
        by auto
      then have "nodes (snd (markBeforeReboot k c))
          = pre @ x\<lparr>ResourceVersion := Suc (ResourceVersion h)\<rparr> # post"
        using res by (simp add: stored_def)
      with none split h x(1) show ?thesis by blast
    qed
  qed
qed

text \<open>
  C2 (as amended). The count of \<open>markBeforeReboot\<close> is the length of three lists put
  end to end; it reaches \<open>maxRebootingNodes\<close> exactly when the cardinality of the union
  does, and below it the two leave the same budget. In a quiet environment, on a cluster
  whose node names are unique: when the count has reached \<open>maxRebootingNodes\<close> no node
  changes; every node that changes was rebootable without \<open>before-reboot=true\<close> and has
  \<open>before-reboot=true\<close> afterwards; at most \<open>maxRebootingNodes\<close> minus the count
  nodes change; and Phase E preserves I1.
\<close>

theorem markBeforeReboot_bounded:
  assumes "quiet (schedule c)" and "distinct (map Name (nodes c))"
  shows "(maxRebootingNodes \<le> length (rebootingNodes (nodes c))
            \<longleftrightarrow> maxRebootingNodes \<le> card (inFlightNames (nodes c)))
    \<and> (\<not> maxRebootingNodes \<le> length (rebootingNodes (nodes c))
          \<longrightarrow> maxRebootingNodes - length (rebootingNodes (nodes c))
                = maxRebootingNodes - card (inFlightNames (nodes c)))
    \<and> (maxRebootingNodes \<le> length (rebootingNodes (nodes c))
          \<longrightarrow> nodes (snd (markBeforeReboot k c)) = nodes c)
    \<and> (\<forall>n' \<in> set (nodes (snd (markBeforeReboot k c))). n' \<notin> set (nodes c) \<longrightarrow>
          (\<exists>n \<in> set (nodes c). Name n = Name n'
              \<and> Matches rebootableSelector (Annotations n)
              \<and> \<not> req_Matches beforeRebootReq (Labels n)
              \<and> req_Matches beforeRebootReq (Labels n')))
    \<and> length (filter (\<lambda>n'. n' \<notin> set (nodes c)) (nodes (snd (markBeforeReboot k c))))
         \<le> maxRebootingNodes - length (rebootingNodes (nodes c))
    \<and> (I1 (nodes c) \<longrightarrow> I1 (nodes (snd (markBeforeReboot k c))))"
proof -
  let ?after = "nodes (snd (markBeforeReboot k c))"
  let ?f = "exec_stmts (mark_stmts LabelBeforeReboot (beforeRebootAnnotations k))"
  consider (same) "?after = nodes c"
    | (one) pre h post x where "rebootingNodes (nodes c) = []" "nodes c = pre @ h # post"
        "Matches rebootableSelector (Annotations h)" "\<not> req_Matches beforeRebootReq (Labels h)"
        "?f h = Some x" "?after = pre @ x\<lparr>ResourceVersion := Suc (ResourceVersion h)\<rparr> # post"
    using markBeforeReboot_quiet [OF assms, of k] by blast
  then have main: "(maxRebootingNodes \<le> length (rebootingNodes (nodes c)) \<longrightarrow> ?after = nodes c)
    \<and> (\<forall>n' \<in> set ?after. n' \<notin> set (nodes c) \<longrightarrow>
          (\<exists>n \<in> set (nodes c). Name n = Name n'
              \<and> Matches rebootableSelector (Annotations n)
              \<and> \<not> req_Matches beforeRebootReq (Labels n)
              \<and> req_Matches beforeRebootReq (Labels n')))
    \<and> length (filter (\<lambda>n'. n' \<notin> set (nodes c)) ?after)
         \<le> maxRebootingNodes - length (rebootingNodes (nodes c))
    \<and> (I1 (nodes c) \<longrightarrow> I1 ?after)"
  proof cases
    case same
    then show ?thesis by simp
  next
    case one
    let ?x = "x\<lparr>ResourceVersion := Suc (ResourceVersion h)\<rparr>"
    note mr = mark_result [OF one(5)]
    have lab: "req_Matches beforeRebootReq (Labels ?x)"
      using mr by (simp add: beforeRebootReq_def)
    have nm: "Name ?x = Name h"
      using mr by simp
    have a: "\<not> maxRebootingNodes \<le> length (rebootingNodes (nodes c))"
      using one(1) by (simp add: maxRebootingNodes_def)
    have b: "\<forall>n' \<in> set ?after. n' \<notin> set (nodes c) \<longrightarrow>
          (\<exists>n \<in> set (nodes c). Name n = Name n'
              \<and> Matches rebootableSelector (Annotations n)
              \<and> \<not> req_Matches beforeRebootReq (Labels n)
              \<and> req_Matches beforeRebootReq (Labels n'))"
    proof (intro ballI impI)
      fix n' assume "n' \<in> set ?after" "n' \<notin> set (nodes c)"
      then have "n' = ?x" using one(2,6) by auto
      with lab nm one(2,3,4) show "\<exists>n \<in> set (nodes c). Name n = Name n'
              \<and> Matches rebootableSelector (Annotations n)
              \<and> \<not> req_Matches beforeRebootReq (Labels n)
              \<and> req_Matches beforeRebootReq (Labels n')"
        by (intro bexI [of _ h]) simp_all
    qed
    have "filter (\<lambda>n'. n' \<notin> set (nodes c)) pre = []" "filter (\<lambda>n'. n' \<notin> set (nodes c)) post = []"
      using one(2) by (simp_all add: filter_empty_conv)
    then have d: "length (filter (\<lambda>n'. n' \<notin> set (nodes c)) ?after)
         \<le> maxRebootingNodes - length (rebootingNodes (nodes c))"
      using one(1,6) by (simp add: maxRebootingNodes_def)
    have "\<forall>n \<in> set (nodes c). \<not> inFlight n"
      using one(1) rebootingNodes_empty_iff by (simp add: filter_empty_conv)
    then have "filter inFlight pre = []" "filter inFlight post = []"
      unfolding one(2) by (simp_all add: filter_empty_conv)
    then have "length (filter inFlight ?after) \<le> 1"
      using one(6) by simp
    then have e: "I1 ?after"
      by (simp add: I1_def maxRebootingNodes_def)
    from a b d e show ?thesis by blast
  qed
  with count_test [of "nodes c"] budget_eq [of "nodes c"] show ?thesis by blast
qed

theorem markBeforeReboot_bounded_witness:
  "nodes (snd (markBeforeReboot no_hooks (snd (markBeforeReboot no_hooks two_wanting))))
     = nodes (snd (markBeforeReboot no_hooks two_wanting))
   \<and> I1 (nodes (snd (markBeforeReboot no_hooks two_wanting)))
   \<and> map (\<lambda>n. lookup (Labels n) LabelBeforeReboot) (nodes (snd (markBeforeReboot no_hooks two_wanting)))
       = [Some ''true'', None]"
proof -
  let ?c1 = "snd (markBeforeReboot no_hooks two_wanting)"
  have q0: "quiet (schedule two_wanting)" "distinct (map Name (nodes two_wanting))"
    by (simp_all add: two_wanting_def example_cluster_def wants_reboot_node_def example_node_def)
  have i0: "I1 (nodes two_wanting)"
    by code_simp
  have q1: "quiet (schedule ?c1)"
    by code_simp
  have d1: "distinct (map Name (nodes ?c1))"
    by code_simp
  have full: "maxRebootingNodes \<le> length (rebootingNodes (nodes ?c1))"
    by code_simp
  have v: "map (\<lambda>n. lookup (Labels n) LabelBeforeReboot) (nodes ?c1) = [Some ''true'', None]"
    by code_simp
  show ?thesis
    using markBeforeReboot_bounded [OF q0, of no_hooks] markBeforeReboot_bounded [OF q1 d1, of no_hooks]
      i0 full v by blast
qed

text \<open>
  C2 as stated fails twice. A node that is still rebooting and carries \<open>after-reboot=true\<close>
  is counted twice, so the count is not the cardinality of the union. And a tick as a
  whole does not preserve I1: Phase C labels every node that has just rebooted, and such
  a node was not in flight before.
\<close>

theorem in_flight_count_counterexample:
  "length (rebootingNodes [reupdated_node]) = 2
   \<and> card (inFlightNames [reupdated_node]) = 1
   \<and> I1 [just_rebooted ''n1'', just_rebooted ''n2'']
   \<and> \<not> I1 (nodes (snd (process no_hooks
            (example_cluster [just_rebooted ''n1'', just_rebooted ''n2''] []))))"
proof -
  have a: "length (rebootingNodes [reupdated_node]) = 2"
    by code_simp
  have "inFlightNames [reupdated_node] = {''n1''}"
    by (simp add: inFlightNames_def FilterNodesByAnnotation_def FilterNodesByRequirement_def
        reupdated_node_def example_node_def stillRebootingSelector_def beforeRebootReq_def
        afterRebootReq_def fields_Get_def lookup_def vocabulary_defs)
  then have b: "card (inFlightNames [reupdated_node]) = 1" by simp
  have c: "I1 [just_rebooted ''n1'', just_rebooted ''n2'']"
    by code_simp
  have d: "\<not> I1 (nodes (snd (process no_hooks
            (example_cluster [just_rebooted ''n1'', just_rebooted ''n2''] []))))"
    by code_simp
  from a b c d show ?thesis by blast
qed

section \<open>Conflict retry of \<open>Unschedulable\<close>\<close>

lemma unschedulable_attempt_gets:
  "unschedulable_attempt s = (r, s') \<Longrightarrow>
     filter is_GetCall (calls (snd s')) = filter is_GetCall (calls (snd s))"
  by (cases "nc_Update (fst s) (snd s)")
    (auto simp add: unschedulable_attempt_def split: sum.splits dest: nc_Update_calls)

lemma retry_unschedulable_gets:
  "retry_from l k unschedulable_attempt s = (r, s') \<Longrightarrow>
     filter is_GetCall (calls (snd s')) = filter is_GetCall (calls (snd s))"
proof (induction k arbitrary: l s)
  case 0
  then show ?case by simp
next
  case (Suc k)
  obtain r1 s1 where a: "unschedulable_attempt s = (r1, s1)"
    by (cases "unschedulable_attempt s")
  note g = unschedulable_attempt_gets [OF a]
  show ?case
  proof (cases "r1 = Failed Conflict")
    case True
    with Suc.prems a have "retry_from (Failed Conflict) k unschedulable_attempt s1 = (r, s')"
      by simp
    from Suc.IH [OF this] g show ?thesis by simp
  next
    case False
    with Suc.prems a have "s' = s1"
      by (cases r1) (auto split: error.splits)
    with g show ?thesis by simp
  qed
qed

text \<open>
  C3. \<open>Unschedulable\<close> reads the node once, outside the function it retries: whatever
  the cluster does, it makes exactly one \<open>Get\<close>. When another writer has changed the
  node between that read and the first write, the write conflicts, and the retry submits
  what the failed write returned, with no new read: the call fails and the node stays
  schedulable. \<open>UpdateNodeRetry\<close> with the same change reads the node again and
  succeeds.
\<close>

theorem Unschedulable_does_not_refetch:
  "filter is_GetCall (calls (snd (Unschedulable nm sched c)))
     = GetCall nm # filter is_GetCall (calls c)
   \<and> fst (Unschedulable ''n1'' True touched_between) = Failed NotFound
   \<and> map call_name (calls (snd (Unschedulable ''n1'' True touched_between)))
       = [''update '', ''update n1'', ''get n1'']
   \<and> map Spec_Unschedulable (nodes (snd (Unschedulable ''n1'' True touched_between))) = [False]
   \<and> fst (UpdateNodeRetry ''n1'' (\<lambda>n. Some (n\<lparr>Spec_Unschedulable := True\<rparr>)) touched_between) = Done
   \<and> map call_name (calls (snd
         (UpdateNodeRetry ''n1'' (\<lambda>n. Some (n\<lparr>Spec_Unschedulable := True\<rparr>)) touched_between)))
       = [''update n1'', ''get n1'', ''update n1'', ''get n1'']
   \<and> map Spec_Unschedulable (nodes (snd
         (UpdateNodeRetry ''n1'' (\<lambda>n. Some (n\<lparr>Spec_Unschedulable := True\<rparr>)) touched_between)))
       = [True]"
proof (rule conjI)
  show "filter is_GetCall (calls (snd (Unschedulable nm sched c)))
     = GetCall nm # filter is_GetCall (calls c)"
  proof (cases "nc_Get nm c")
    case (Pair g c1)
    note gc = nc_Get_calls [OF Pair]
    show ?thesis
    proof (cases g)
      case (Inl e)
      with Pair gc show ?thesis by (simp add: Unschedulable_def)
    next
      case (Inr n)
      obtain r s' where rt: "RetryOnConflict unschedulable_attempt
          (n\<lparr>Spec_Unschedulable := sched\<rparr>, c1) = (r, s')"
        by (cases "RetryOnConflict unschedulable_attempt (n\<lparr>Spec_Unschedulable := sched\<rparr>, c1)")
      then have "filter is_GetCall (calls (snd s')) = filter is_GetCall (calls c1)"
        using retry_unschedulable_gets [of Done DefaultBackoff_Steps
            "(n\<lparr>Spec_Unschedulable := sched\<rparr>, c1)" r s']
        by (simp add: RetryOnConflict_def)
      moreover have "snd (Unschedulable nm sched c) = snd s'"
        using Pair Inr rt by (simp add: Unschedulable_def split: prod.splits)
      ultimately show ?thesis using gc by simp
    qed
  qed
next
  show "fst (Unschedulable ''n1'' True touched_between) = Failed NotFound
   \<and> map call_name (calls (snd (Unschedulable ''n1'' True touched_between)))
       = [''update '', ''update n1'', ''get n1'']
   \<and> map Spec_Unschedulable (nodes (snd (Unschedulable ''n1'' True touched_between))) = [False]
   \<and> fst (UpdateNodeRetry ''n1'' (\<lambda>n. Some (n\<lparr>Spec_Unschedulable := True\<rparr>)) touched_between) = Done
   \<and> map call_name (calls (snd
         (UpdateNodeRetry ''n1'' (\<lambda>n. Some (n\<lparr>Spec_Unschedulable := True\<rparr>)) touched_between)))
       = [''update n1'', ''get n1'', ''update n1'', ''get n1'']
   \<and> map Spec_Unschedulable (nodes (snd
         (UpdateNodeRetry ''n1'' (\<lambda>n. Some (n\<lparr>Spec_Unschedulable := True\<rparr>)) touched_between)))
       = [True]"
    by code_simp
qed

end
